theory Spec2Isabelle
  imports Complex_Main
begin

section \<open>JavaScript values and the \<open>Number\<close> coercion\<close>

text \<open>
  The request fields and function arguments of the source are untyped JavaScript values.
  The model keeps the JSON scalars: \<open>undefined\<close> (an absent field), \<open>null\<close>, booleans,
  integral numbers (\<open>JNum\<close>) and strings. Strings are byte strings in UTF-8.
\<close>

datatype jsval = JUndefined | JNull | JBool bool | JNum int | JStr string

text \<open>
  A JavaScript number, as \<open>Number(v)\<close> returns it: a binary64 value. \<open>SafeInt n\<close> is the
  integer \<open>n\<close> of magnitude below \<open>2^53\<close>, \<open>Finite q\<close> any other finite value (a fraction or a
  larger magnitude); the two zeros are one value. Strict equality \<open>===\<close> on numbers is
  equality of these values, except that \<open>NaN\<close> equals nothing.
\<close>

datatype jsnum = SafeInt int | Finite rat | NaN | PosInfinity | NegInfinity

definition js_eq :: "jsnum \<Rightarrow> jsnum \<Rightarrow> bool" where
  "js_eq x y = (x \<noteq> NaN \<and> x = y)"

text \<open>JavaScript truthiness, as \<open>!v\<close> reads it: \<open>truthy v\<close> is \<open>!!v\<close>.\<close>

fun truthy :: "jsval \<Rightarrow> bool" where
  "truthy JUndefined = False"
| "truthy JNull = False"
| "truthy (JBool b) = b"
| "truthy (JNum n) = (n \<noteq> 0)"
| "truthy (JStr s) = (s \<noteq> [])"

subsection \<open>Rounding to binary64\<close>

text \<open>
  The number nearest to an exact non-negative value \<open>x\<close>, ties to even: with
  \<open>2^e \<le> x < 2^(e+1)\<close> the spacing of the binary64 values around \<open>x\<close> is \<open>2^(e-52)\<close>, and
  \<open>2^-1074\<close> below the normal range; a result of \<open>2^1024\<close> is the overflow to infinity.
\<close>

definition pow2 :: "int \<Rightarrow> rat" where
  "pow2 e = (if 0 \<le> e then 2 ^ nat e else 1 / 2 ^ nat (- e))"

fun bitlen :: "nat \<Rightarrow> nat" where
  "bitlen n = (if n = 0 then 0 else Suc (bitlen (n div 2)))"

declare bitlen.simps [simp del]

definition floor_log2 :: "rat \<Rightarrow> int" where
  "floor_log2 x =
     (case quotient_of x of
        (n, d) \<Rightarrow>
          (let k = int (bitlen (nat n)) - int (bitlen (nat d))
           in if pow2 k \<le> x then k else k - 1))"

definition round_half_even :: "rat \<Rightarrow> int" where
  "round_half_even y =
     (let f = \<lfloor>y\<rfloor>; d = y - of_int f
      in if d < 1 / 2 then f
         else if 1 / 2 < d then f + 1
         else if even f then f else f + 1)"

definition nearest_double :: "rat \<Rightarrow> rat option" where
  "nearest_double x =
     (if x = 0 then Some 0
      else (let e = max (floor_log2 x) (- 1022);
                q = pow2 (e - 52);
                r = of_int (round_half_even (x / q)) * q
            in if pow2 1024 \<le> r then None else Some r))"

text \<open>The number with the given sign and exact magnitude.\<close>

definition number_of :: "bool \<Rightarrow> rat \<Rightarrow> jsnum" where
  "number_of neg x =
     (case nearest_double x of
        None \<Rightarrow> if neg then NegInfinity else PosInfinity
      | Some r \<Rightarrow>
          if r = of_int \<lfloor>r\<rfloor> \<and> r < 2 ^ 53
          then SafeInt (if neg then - \<lfloor>r\<rfloor> else \<lfloor>r\<rfloor>)
          else Finite (if neg then - r else r))"

subsection \<open>StringToNumber\<close>

text \<open>
  \<open>Number\<close> applied to a string follows the StringNumericLiteral grammar of ECMAScript:
  white space is trimmed at both ends, the empty string is \<open>0\<close>, an unsigned literal with
  prefix \<open>0x\<close>, \<open>0o\<close> or \<open>0b\<close> is read in that radix, and otherwise an optional sign is
  followed by \<open>Infinity\<close> or by decimal digits with an optional fraction and an optional
  exponent. Anything else is \<open>NaN\<close>. The value of a literal is its exact value rounded to
  binary64.

  The white space of the grammar (WhiteSpace and LineTerminator), each code point as its
  UTF-8 bytes: U+0009 to U+000D, U+0020, U+00A0, U+1680, U+2000 to U+200A, U+2028, U+2029,
  U+202F, U+205F, U+3000 and U+FEFF.
\<close>

definition white_space :: "string list" where
  "white_space =
     [[CHR 0x09], [CHR 0x0A], [CHR 0x0B], [CHR 0x0C], [CHR 0x0D], [CHR 0x20],
      [CHR 0xC2, CHR 0xA0], [CHR 0xE1, CHR 0x9A, CHR 0x80],
      [CHR 0xE2, CHR 0x80, CHR 0x80], [CHR 0xE2, CHR 0x80, CHR 0x81],
      [CHR 0xE2, CHR 0x80, CHR 0x82], [CHR 0xE2, CHR 0x80, CHR 0x83],
      [CHR 0xE2, CHR 0x80, CHR 0x84], [CHR 0xE2, CHR 0x80, CHR 0x85],
      [CHR 0xE2, CHR 0x80, CHR 0x86], [CHR 0xE2, CHR 0x80, CHR 0x87],
      [CHR 0xE2, CHR 0x80, CHR 0x88], [CHR 0xE2, CHR 0x80, CHR 0x89],
      [CHR 0xE2, CHR 0x80, CHR 0x8A], [CHR 0xE2, CHR 0x80, CHR 0xA8],
      [CHR 0xE2, CHR 0x80, CHR 0xA9], [CHR 0xE2, CHR 0x80, CHR 0xAF],
      [CHR 0xE2, CHR 0x81, CHR 0x9F], [CHR 0xE3, CHR 0x80, CHR 0x80],
      [CHR 0xEF, CHR 0xBB, CHR 0xBF]]"

text \<open>
  \<open>lead ws s\<close> is the number of bytes of the member of \<open>ws\<close> that \<open>s\<close> starts with, \<open>0\<close> when
  it starts with none; \<open>strip ws s\<close> removes such members from the front of \<open>s\<close> until it
  starts with none.
\<close>

definition lead :: "string list \<Rightarrow> string \<Rightarrow> nat" where
  "lead ws s =
     (case find (\<lambda>w. w \<noteq> [] \<and> take (length w) s = w) ws of
        None \<Rightarrow> 0
      | Some w \<Rightarrow> length w)"

function strip :: "string list \<Rightarrow> string \<Rightarrow> string" where
  "strip ws s = (if lead ws s = 0 then s else strip ws (drop (lead ws s) s))"
  by pat_completeness auto
termination
proof (relation "measure (\<lambda>(ws, s). length s)")
  show "wf (measure (\<lambda>(ws, s). length s))" by simp
next
  fix ws :: "string list" and s :: string
  assume "lead ws s \<noteq> 0"
  then obtain w where "w \<noteq> []" and "take (length w) s = w"
    by (auto simp: lead_def find_Some_iff split: option.splits)
  then have "s \<noteq> []" by auto
  with \<open>lead ws s \<noteq> 0\<close> show "((ws, drop (lead ws s) s), (ws, s)) \<in> measure (\<lambda>(ws, s). length s)"
    by simp
qed

declare strip.simps [simp del]

definition trim :: "string \<Rightarrow> string" where
  "trim s = rev (strip (map rev white_space) (rev (strip white_space s)))"

definition digit_of :: "char \<Rightarrow> nat option" where
  "digit_of c =
     (let n = (of_char c :: nat) in
      if 48 \<le> n \<and> n \<le> 57 then Some (n - 48)
      else if 97 \<le> n \<and> n \<le> 102 then Some (n - 87)
      else if 65 \<le> n \<and> n \<le> 70 then Some (n - 55)
      else None)"

definition is_dec :: "char \<Rightarrow> bool" where
  "is_dec c = (48 \<le> (of_char c :: nat) \<and> (of_char c :: nat) \<le> 57)"

fun digits_in :: "nat \<Rightarrow> string \<Rightarrow> nat \<Rightarrow> nat option" where
  "digits_in b [] acc = Some acc"
| "digits_in b (c # cs) acc =
     (case digit_of c of
        None \<Rightarrow> None
      | Some d \<Rightarrow> if d < b then digits_in b cs (b * acc + d) else None)"

definition numeral_in :: "nat \<Rightarrow> string \<Rightarrow> nat option" where
  "numeral_in b s = (if s = [] then None else digits_in b s 0)"

definition radix_prefix :: "string \<Rightarrow> nat option" where
  "radix_prefix s =
     (case s of
        c0 # c1 # _ \<Rightarrow>
          if c0 \<noteq> CHR ''0'' then None
          else if c1 = CHR ''x'' \<or> c1 = CHR ''X'' then Some 16
          else if c1 = CHR ''o'' \<or> c1 = CHR ''O'' then Some 8
          else if c1 = CHR ''b'' \<or> c1 = CHR ''B'' then Some 2
          else None
      | _ \<Rightarrow> None)"

definition strip_sign :: "string \<Rightarrow> bool \<times> string" where
  "strip_sign s =
     (case s of
        [] \<Rightarrow> (False, [])
      | c # cs \<Rightarrow>
          if c = CHR ''-'' then (True, cs)
          else if c = CHR ''+'' then (False, cs)
          else (False, s))"

definition signed_int :: "string \<Rightarrow> int option" where
  "signed_int s =
     (case strip_sign s of
        (neg, ds) \<Rightarrow> map_option (\<lambda>n. if neg then - int n else int n) (numeral_in 10 ds))"

definition is_exp_mark :: "char \<Rightarrow> bool" where
  "is_exp_mark c = (c = CHR ''e'' \<or> c = CHR ''E'')"

text \<open>\<open>scale v k\<close> is the exact value \<open>v * 10^k\<close>.\<close>

definition scale :: "nat \<Rightarrow> int \<Rightarrow> rat" where
  "scale v k = (if 0 \<le> k then of_nat v * 10 ^ nat k else of_nat v / 10 ^ nat (- k))"

text \<open>An unsigned decimal literal: not one, \<open>Infinity\<close>, or its exact value.\<close>

datatype literal = NotALiteral | InfinityLiteral | Exact rat

definition unsigned_decimal :: "string \<Rightarrow> literal" where
  "unsigned_decimal s =
     (let m = takeWhile (\<lambda>c. \<not> is_exp_mark c) s;
          e = dropWhile (\<lambda>c. \<not> is_exp_mark c) s;
          ip = takeWhile is_dec m;
          r = dropWhile is_dec m;
          fp = tl r
      in if s = ''Infinity'' then InfinityLiteral
         else if r \<noteq> [] \<and> hd r \<noteq> CHR ''.'' then NotALiteral
         else if \<not> list_all is_dec fp then NotALiteral
         else if ip = [] \<and> fp = [] then NotALiteral
         else (case (if e = [] then Some 0 else signed_int (tl e)) of
                 None \<Rightarrow> NotALiteral
               | Some x \<Rightarrow>
                   (case digits_in 10 (ip @ fp) 0 of
                      None \<Rightarrow> NotALiteral
                    | Some v \<Rightarrow> Exact (scale v (x - int (length fp))))))"

definition StringToNumber :: "string \<Rightarrow> jsnum" where
  "StringToNumber str =
     (let s = trim str in
      if s = [] then SafeInt 0
      else (case radix_prefix s of
              Some b \<Rightarrow>
                (case numeral_in b (drop 2 s) of
                   None \<Rightarrow> NaN
                 | Some n \<Rightarrow> number_of False (of_nat n))
            | None \<Rightarrow>
                (case strip_sign s of
                   (neg, u) \<Rightarrow>
                     (case unsigned_decimal u of
                        NotALiteral \<Rightarrow> NaN
                      | InfinityLiteral \<Rightarrow> if neg then NegInfinity else PosInfinity
                      | Exact x \<Rightarrow> number_of neg x))))"

fun Number_js :: "jsval \<Rightarrow> jsnum" where
  "Number_js JUndefined = NaN"
| "Number_js JNull = SafeInt 0"
| "Number_js (JBool b) = SafeInt (if b then 1 else 0)"
| "Number_js (JNum n) = number_of (n < 0) (of_int \<bar>n\<bar>)"
| "Number_js (JStr s) = StringToNumber s"

text \<open>
  \<open>String(n)\<close> for a safe integer \<open>n\<close>: a minus sign for a negative number, then the
  decimal digits with no leading zero.
\<close>

fun digits_of :: "nat \<Rightarrow> string" where
  "digits_of n =
     (if n < 10 then [char_of (48 + n)]
      else digits_of (n div 10) @ [char_of (48 + n mod 10)])"

declare digits_of.simps [simp del]

definition String_js :: "int \<Rightarrow> string" where
  "String_js n = (if n < 0 then CHR ''-'' # digits_of (nat (- n)) else digits_of (nat n))"

section \<open>The relational store\<close>

text \<open>
  The source reaches its data through an ORM client \<open>db\<close>. The tables the reaction code
  touches are \<open>posts\<close>, \<open>posts_rels\<close> (the shared relations table: tag rows and like rows,
  told apart by \<open>path\<close>) and the users a like row refers to. The schema is not part of the
  sources; the columns are the ones the code reads and writes. The ids the store
  generates (\<open>posts.id\<close>, \<open>users.id\<close>, \<open>posts_rels.id\<close>) are integers; the columns the code
  fills (\<open>parent_id\<close>, \<open>user_id\<close>, \<open>tags_id\<close>) hold the number the code passes, whatever it
  is, since the code checks none of them. What the client does with a number that is not
  an integer is not in the sources; the statements about \<open>likePost\<close> and
  \<open>isPostLikedByUser\<close> below take ids that \<open>Number\<close> turns into integers. A table is the
  list of its rows in storage order. \<open>posts_rels_seq\<close> is the sequence that numbers new
  \<open>posts_rels\<close> rows.
\<close>

record post =
  post_id :: int
  title :: string

record posts_rel =
  rel_id :: int
  parent_id :: jsnum
  user_id :: "jsnum option"
  tags_id :: "jsnum option"
  path :: string

record user =
  uid :: int
  full_name :: "string option"
  avatar_url :: "string option"
  avatar :: "string option"
  email :: string
  password :: string

record db =
  posts :: "post list"
  posts_rels :: "posts_rel list"
  users :: "user list"
  posts_rels_seq :: int

text \<open>
  What the code can throw: \<open>new Error(message)\<close>, and the client's error for a \<open>delete\<close>
  that matches no row (code \<open>P2025\<close>, the one the delete route of the source looks for).
  The message of that error is the client's own text; the handlers compare a message
  only with the texts the services throw themselves.
\<close>

datatype js_error = Error string | PrismaClientKnownRequestError string

fun error_message :: "js_error \<Rightarrow> string" where
  "error_message (Error m) = m"
| "error_message (PrismaClientKnownRequestError code) = ''Record to delete does not exist.''"

subsection \<open>The client's operations\<close>

text \<open>
  \<open>findUnique\<close> and \<open>findFirst\<close> return the first row that matches, or \<open>null\<close>; \<open>findMany\<close>
  the matching rows; \<open>count\<close> their number; \<open>delete\<close> removes the row with the given id
  and throws when there is none; \<open>create\<close> appends a row with the next id of the sequence.
  A condition \<open>column: value\<close> holds of a row when the column strictly equals the value.
\<close>

definition posts_findUnique :: "jsnum \<Rightarrow> db \<Rightarrow> post option" where
  "posts_findUnique i s = find (\<lambda>p. js_eq (SafeInt (post_id p)) i) (posts s)"

definition posts_rels_findFirst :: "(posts_rel \<Rightarrow> bool) \<Rightarrow> db \<Rightarrow> posts_rel option" where
  "posts_rels_findFirst wh s = find wh (posts_rels s)"

definition posts_rels_findMany :: "(posts_rel \<Rightarrow> bool) \<Rightarrow> db \<Rightarrow> posts_rel list" where
  "posts_rels_findMany wh s = filter wh (posts_rels s)"

definition posts_rels_count :: "(posts_rel \<Rightarrow> bool) \<Rightarrow> db \<Rightarrow> nat" where
  "posts_rels_count wh s = length (filter wh (posts_rels s))"

definition posts_rels_delete :: "int \<Rightarrow> db \<Rightarrow> js_error + db" where
  "posts_rels_delete i s =
     (if find (\<lambda>r. rel_id r = i) (posts_rels s) = None
      then Inl (PrismaClientKnownRequestError ''P2025'')
      else Inr (s\<lparr>posts_rels := filter (\<lambda>r. rel_id r \<noteq> i) (posts_rels s)\<rparr>))"

definition posts_rels_deleteMany :: "(posts_rel \<Rightarrow> bool) \<Rightarrow> db \<Rightarrow> db" where
  "posts_rels_deleteMany wh s = s\<lparr>posts_rels := filter (\<lambda>r. \<not> wh r) (posts_rels s)\<rparr>"

definition posts_rels_create ::
  "jsnum \<Rightarrow> jsnum option \<Rightarrow> jsnum option \<Rightarrow> string \<Rightarrow> db \<Rightarrow> db" where
  "posts_rels_create parent usr tag pth s =
     s\<lparr>posts_rels := posts_rels s @
          [\<lparr>rel_id = posts_rels_seq s, parent_id = parent, user_id = usr, tags_id = tag,
            path = pth\<rparr>],
       posts_rels_seq := posts_rels_seq s + 1\<rparr>"

text \<open>The \<open>where\<close> clauses of the reaction code.\<close>

definition user_is :: "jsnum \<Rightarrow> posts_rel \<Rightarrow> bool" where
  "user_is u r = (case user_id r of None \<Rightarrow> False | Some v \<Rightarrow> js_eq v u)"

definition like_of :: "jsnum \<Rightarrow> jsnum \<Rightarrow> posts_rel \<Rightarrow> bool" where
  "like_of p u r = (js_eq (parent_id r) p \<and> user_is u r \<and> path r = ''likedBy'')"

definition likes_on :: "jsnum \<Rightarrow> posts_rel \<Rightarrow> bool" where
  "likes_on p r = (js_eq (parent_id r) p \<and> path r = ''likedBy'')"

section \<open>The post reaction operations\<close>

record like_result =
  liked :: bool
  likeCount :: nat
  message :: string

text \<open>
  \<open>likePost\<close>, run with no other request in between: both ids go through \<open>Number\<close>; the post
  is looked up and its absence thrown as \<open>Error('Post not found')\<close>; then the like row of
  the pair is looked up, deleted by its id when there is one and created when there is
  none, and the like rows of the post are counted afterwards. The result pairs what is
  returned or thrown with the store afterwards.
\<close>

definition likePost :: "jsval \<Rightarrow> jsval \<Rightarrow> db \<Rightarrow> (js_error + like_result) \<times> db" where
  "likePost postId0 userId0 s =
     (let postId = Number_js postId0; userId = Number_js userId0 in
      case posts_findUnique postId s of
        None \<Rightarrow> (Inl (Error ''Post not found''), s)
      | Some post \<Rightarrow>
          (case posts_rels_findFirst (like_of postId userId) s of
             Some existingLike \<Rightarrow>
               (case posts_rels_delete (rel_id existingLike) s of
                  Inl error \<Rightarrow> (Inl error, s)
                | Inr s1 \<Rightarrow>
                    (let likeCount = posts_rels_count (likes_on postId) s1
                     in (Inr \<lparr>liked = False, likeCount = likeCount,
                               message = ''Post unliked successfully''\<rparr>, s1)))
           | None \<Rightarrow>
               (let s1 = posts_rels_create postId (Some userId) None ''likedBy'' s;
                    likeCount = posts_rels_count (likes_on postId) s1
                in (Inr \<lparr>liked = True, likeCount = likeCount,
                          message = ''Post liked successfully''\<rparr>, s1))))"

definition isPostLikedByUser :: "jsval \<Rightarrow> jsval \<Rightarrow> db \<Rightarrow> bool" where
  "isPostLikedByUser postId0 userId0 s =
     (let postId = Number_js postId0; userId = Number_js userId0 in
      posts_rels_findFirst (like_of postId userId) s \<noteq> None)"

text \<open>
  \<open>getPostById\<close> loads the post with its \<open>posts_rels\<close> rows (the rows whose \<open>parent_id\<close> is
  the post) and counts those of path \<open>likedBy\<close>. Of the returned object the model keeps
  the post row and \<open>likeCount\<close>; the image URL, the author summary and the tags are
  formatting of other tables.
\<close>

record post_view =
  pv_post :: post
  pv_likeCount :: nat

definition getPostById :: "jsval \<Rightarrow> db \<Rightarrow> post_view option" where
  "getPostById id0 s =
     (let i = Number_js id0 in
      case posts_findUnique i s of
        None \<Rightarrow> None
      | Some post \<Rightarrow>
          (let included = filter (\<lambda>r. js_eq (parent_id r) (SafeInt (post_id post))) (posts_rels s);
               likeCount = length (filter (\<lambda>rel. path rel = ''likedBy'') included)
           in Some \<lparr>pv_post = post, pv_likeCount = likeCount\<rparr>))"

text \<open>
  \<open>getLikesByPostId\<close>: the like rows of the post, each with its user row included (the
  user whose id is the row's \<open>user_id\<close>, \<open>null\<close> when there is none), mapped to the edge id,
  the user id and four fields of the user.
\<close>

definition IMAGE_BASE_URL :: string where
  "IMAGE_BASE_URL = ''https://qauff8c31y.ufs.sh/f/''"

record user_summary =
  us_id :: int
  us_full_name :: "string option"
  us_avatar_url :: "string option"
  us_avatarUrl :: "string option"

record like_view =
  lv_id :: int
  lv_userId :: "jsnum option"
  lv_user :: "user_summary option"

definition include_user :: "db \<Rightarrow> posts_rel \<Rightarrow> user option" where
  "include_user s r =
     (case user_id r of
        None \<Rightarrow> None
      | Some u \<Rightarrow> find (\<lambda>x. js_eq (SafeInt (uid x)) u) (users s))"

definition format_like :: "db \<Rightarrow> posts_rel \<Rightarrow> like_view" where
  "format_like s like =
     \<lparr>lv_id = rel_id like,
      lv_userId = user_id like,
      lv_user =
        (case include_user s like of
           None \<Rightarrow> None
         | Some usr \<Rightarrow>
             Some \<lparr>us_id = uid usr,
                   us_full_name = full_name usr,
                   us_avatar_url = avatar_url usr,
                   us_avatarUrl =
                     (case avatar usr of
                        None \<Rightarrow> None
                      | Some a \<Rightarrow> if a \<noteq> [] then Some (IMAGE_BASE_URL @ a) else None)\<rparr>)\<rparr>"

definition getLikesByPostId :: "jsval \<Rightarrow> db \<Rightarrow> like_view list" where
  "getLikesByPostId postId0 s =
     (let postId = Number_js postId0
      in map (format_like s) (posts_rels_findMany (likes_on postId) s))"

section \<open>The HTTP boundary of the post reactions\<close>

text \<open>
  A handler either sends a response (status and JSON body) or hands the error to the
  next middleware. The request is the fields the handler reads: \<open>req.body\<close>,
  \<open>req.params\<close> and \<open>req.query\<close> are objects, an absent field reads as \<open>undefined\<close>. A
  \<open>catch\<close> whose \<open>try\<close> block cannot throw in this model has no branch.
\<close>

datatype 'a json_body = ErrorBody string | Result 'a

datatype 'a outcome = Sent nat "'a json_body" | Next js_error

record like_request =
  body_postId :: jsval
  body_userId :: jsval

definition post_like_route :: "like_request \<Rightarrow> db \<Rightarrow> like_result outcome \<times> db" where
  "post_like_route req s =
     (let postId = body_postId req; userId = body_userId req in
      if \<not> truthy postId \<or> \<not> truthy userId
      then (Sent 400 (ErrorBody ''Missing required fields: postId or userId''), s)
      else (case likePost postId userId s of
              (Inr result, s') \<Rightarrow> (Sent 200 (Result result), s')
            | (Inl error, s') \<Rightarrow>
                if error_message error = ''Post not found''
                then (Sent 404 (ErrorBody ''Post not found''), s')
                else (Sent 500 (ErrorBody ''Internal server error''), s')))"

record is_liked_request =
  params_postId :: jsval
  query_userId :: jsval

definition post_is_liked_route :: "is_liked_request \<Rightarrow> db \<Rightarrow> bool outcome" where
  "post_is_liked_route req s =
     (let postId = params_postId req; userId = query_userId req in
      if \<not> truthy userId
      then Sent 400 (ErrorBody ''Missing required query parameter: userId'')
      else Sent 200 (Result (isPostLikedByUser postId userId s)))"

definition post_likes_route :: "jsval \<Rightarrow> db \<Rightarrow> like_view list outcome" where
  "post_likes_route postId s = Sent 200 (Result (getLikesByPostId postId s))"

section \<open>The HTTP boundary of the comment reactions\<close>

text \<open>
  The comment routes call \<open>likeComment\<close>, \<open>dislikeComment\<close>, \<open>unlikeComment\<close> and
  \<open>isCommentLikedByUser\<close> of the comment service. The service is not among the sources, so
  each handler takes the operation it calls as a parameter: a function from the two
  arguments and the store to what is returned or thrown and the store afterwards.
  \<open>next(error)\<close> hands the error to the next middleware.
\<close>

type_synonym ('s, 'r) service = "jsval \<Rightarrow> jsval \<Rightarrow> 's \<Rightarrow> (js_error + 'r) \<times> 's"

record comment_request =
  params_commentId :: jsval
  req_userId :: jsval

definition like_comment_route ::
  "('s, 'r) service \<Rightarrow> comment_request \<Rightarrow> 's \<Rightarrow> 'r outcome \<times> 's" where
  "like_comment_route likeComment req s =
     (let userId = req_userId req; commentId = params_commentId req in
      case likeComment commentId userId s of
        (Inr result, s') \<Rightarrow> (Sent 200 (Result result), s')
      | (Inl error, s') \<Rightarrow> (Next error, s'))"

definition dislike_comment_route ::
  "('s, 'r) service \<Rightarrow> comment_request \<Rightarrow> 's \<Rightarrow> 'r outcome \<times> 's" where
  "dislike_comment_route dislikeComment req s =
     (let userId = req_userId req; commentId = params_commentId req in
      case dislikeComment commentId userId s of
        (Inr result, s') \<Rightarrow> (Sent 200 (Result result), s')
      | (Inl error, s') \<Rightarrow> (Next error, s'))"

text \<open>
  The message the unlike route looks for, \<open>Binh luan khong ton tai\<close> with its Vietnamese
  diacritics, as the bytes of its UTF-8 encoding.
\<close>

definition COMMENT_NOT_FOUND :: string where
  "COMMENT_NOT_FOUND =
     map char_of
       [0x42, 0xC3, 0xAC, 0x6E, 0x68, 0x20, 0x6C, 0x75, 0xE1, 0xBA, 0xAD, 0x6E, 0x20, 0x6B,
        0x68, 0xC3, 0xB4, 0x6E, 0x67, 0x20, 0x74, 0xE1, 0xBB, 0x93, 0x6E, 0x20, 0x74, 0xE1,
        0xBA, 0xA1, 0x69 :: nat]"

definition unlike_comment_route ::
  "('s, 'r) service \<Rightarrow> comment_request \<Rightarrow> 's \<Rightarrow> 'r outcome \<times> 's" where
  "unlike_comment_route unlikeComment req s =
     (let userId = req_userId req; commentId = params_commentId req in
      if \<not> truthy userId
      then (Sent 400 (ErrorBody ''Missing required field: userId''), s)
      else (case unlikeComment commentId userId s of
              (Inr result, s') \<Rightarrow> (Sent 200 (Result result), s')
            | (Inl error, s') \<Rightarrow>
                if error_message error = COMMENT_NOT_FOUND
                then (Sent 404 (ErrorBody ''Comment not found''), s')
                else (Next error, s')))"

definition comment_is_liked_route ::
  "(jsval \<Rightarrow> jsval \<Rightarrow> 's \<Rightarrow> js_error + bool) \<Rightarrow> comment_request \<Rightarrow> 's \<Rightarrow> bool outcome" where
  "comment_is_liked_route isCommentLikedByUser req s =
     (let commentId = params_commentId req; userId = req_userId req in
      if \<not> truthy userId
      then Sent 400 (ErrorBody ''Missing required query parameter: userId'')
      else (case isCommentLikedByUser commentId userId s of
              Inr is_liked \<Rightarrow> Sent 200 (Result is_liked)
            | Inl error \<Rightarrow> Sent 500 (ErrorBody ''Internal server error'')))"

section \<open>The other writers of the relations table\<close>

text \<open>
  \<open>createPost\<close> and \<open>updatePost\<close> write the tag rows of a post into \<open>posts_rels\<close>: a row of
  path \<open>tags\<close> with no user per tag, and \<open>updatePost\<close> first deletes the tag rows of the post.
\<close>

definition create_tag_rel :: "jsnum \<Rightarrow> jsnum \<Rightarrow> db \<Rightarrow> db" where
  "create_tag_rel parent tag s = posts_rels_create parent None (Some tag) ''tags'' s"

definition delete_tag_rels :: "jsnum \<Rightarrow> db \<Rightarrow> db" where
  "delete_tag_rels parent s =
     posts_rels_deleteMany (\<lambda>r. js_eq (parent_id r) parent \<and> path r = ''tags'') s"

section \<open>likePost, one client call at a time\<close>

text \<open>
  \<open>likePost\<close> is an \<open>async\<close> function: it gives up control at each \<open>await\<close>, that is, around
  each of its client calls, and other requests run in between. A call in flight is at
  one of these points: just called; post found, \<open>findFirst\<close> next; like row found,
  \<open>delete\<close> next; no like row found, \<open>create\<close> next; written, \<open>count\<close> next; settled with
  what it returned or threw. \<open>step\<close> runs the call up to its next \<open>await\<close>.
\<close>

datatype like_call =
    Called jsval jsval
  | AwaitFindFirst jsnum jsnum
  | AwaitDelete jsnum posts_rel
  | AwaitCreate jsnum jsnum
  | AwaitCount jsnum bool
  | Settled "js_error + like_result"

fun step :: "like_call \<Rightarrow> db \<Rightarrow> like_call \<times> db" where
  "step (Called postId0 userId0) s =
     (let postId = Number_js postId0; userId = Number_js userId0 in
      case posts_findUnique postId s of
        None \<Rightarrow> (Settled (Inl (Error ''Post not found'')), s)
      | Some post \<Rightarrow> (AwaitFindFirst postId userId, s))"
| "step (AwaitFindFirst postId userId) s =
     (case posts_rels_findFirst (like_of postId userId) s of
        Some existingLike \<Rightarrow> (AwaitDelete postId existingLike, s)
      | None \<Rightarrow> (AwaitCreate postId userId, s))"
| "step (AwaitDelete postId existingLike) s =
     (case posts_rels_delete (rel_id existingLike) s of
        Inl error \<Rightarrow> (Settled (Inl error), s)
      | Inr s1 \<Rightarrow> (AwaitCount postId False, s1))"
| "step (AwaitCreate postId userId) s =
     (AwaitCount postId True, posts_rels_create postId (Some userId) None ''likedBy'' s)"
| "step (AwaitCount postId is_liked) s =
     (Settled (Inr \<lparr>liked = is_liked,
                    likeCount = posts_rels_count (likes_on postId) s,
                    message = (if is_liked then ''Post liked successfully''
                               else ''Post unliked successfully'')\<rparr>), s)"
| "step (Settled r) s = (Settled r, s)"

text \<open>\<open>steps n\<close> takes \<open>n\<close> steps of one call with nothing in between.\<close>

primrec steps :: "nat \<Rightarrow> like_call \<Rightarrow> db \<Rightarrow> like_call \<times> db" where
  "steps 0 c s = (c, s)"
| "steps (Suc n) c s = (case step c s of (c', s') \<Rightarrow> steps n c' s')"

section \<open>Invariants of the store\<close>

text \<open>
  The primary key of \<open>posts_rels\<close>: the row ids are pairwise distinct and were all drawn
  from the sequence.
\<close>

definition pk_ok :: "db \<Rightarrow> bool" where
  "pk_ok s =
     (distinct (map rel_id (posts_rels s)) \<and>
      list_all (\<lambda>r. rel_id r < posts_rels_seq s) (posts_rels s))"

text \<open>
  An edge of a given kind for a (parent, user) pair, and the check that a table has at
  most one row of a kind per pair: the rows of that kind that carry a user have pairwise
  distinct (parent, user) keys.
\<close>

definition edge_of :: "string \<Rightarrow> jsnum \<Rightarrow> jsnum \<Rightarrow> posts_rel \<Rightarrow> bool" where
  "edge_of kind p u r = (js_eq (parent_id r) p \<and> user_is u r \<and> path r = kind)"

definition one_per_pair :: "string \<Rightarrow> posts_rel list \<Rightarrow> bool" where
  "one_per_pair kind rows =
     distinct (map (\<lambda>r. (parent_id r, user_id r))
                 (filter (\<lambda>r. path r = kind \<and> user_id r \<noteq> None) rows))"

definition initial :: "db \<Rightarrow> bool" where
  "initial s =
     (pk_ok s \<and> one_per_pair ''likedBy'' (posts_rels s) \<and>
      one_per_pair ''dislikedBy'' (posts_rels s))"

text \<open>A number that is an id: an integer.\<close>

fun is_id :: "jsnum \<Rightarrow> bool" where
  "is_id (SafeInt n) = True"
| "is_id x = False"

section \<open>Reachable stores\<close>

text \<open>
  What the program can reach from a store that satisfies the invariants: requests arrive
  at any time, and any call in flight takes its next step; the tag writes and changes of
  the posts and users tables happen in between. The second element is the list of the
  \<open>likePost\<close> calls made so far, each at the point it has got to.
\<close>

inductive reachable :: "db \<Rightarrow> like_call list \<Rightarrow> bool" where
  start: "initial s \<Longrightarrow> reachable s []"
| called: "reachable s cs \<Longrightarrow> reachable s (cs @ [Called postId userId])"
| stepped:
    "reachable s cs \<Longrightarrow> i < length cs \<Longrightarrow>
       reachable (snd (step (cs ! i) s)) (cs[i := fst (step (cs ! i) s)])"
| tag_created: "reachable s cs \<Longrightarrow> reachable (create_tag_rel parent tag s) cs"
| tags_deleted: "reachable s cs \<Longrightarrow> reachable (delete_tag_rels parent s) cs"
| other_tables: "reachable s cs \<Longrightarrow> reachable (s\<lparr>posts := ps, users := us\<rparr>) cs"

text \<open>
  The stores reached when the operations run one at a time, each \<open>likePost\<close> call with
  its ids complete before the next operation starts.
\<close>

inductive sequential :: "db \<Rightarrow> bool" where
  start: "initial s \<Longrightarrow> sequential s"
| like_post:
    "sequential s \<Longrightarrow> is_id (Number_js postId) \<Longrightarrow> is_id (Number_js userId) \<Longrightarrow>
       sequential (snd (likePost postId userId s))"
| tag_created: "sequential s \<Longrightarrow> sequential (create_tag_rel parent tag s)"
| tags_deleted: "sequential s \<Longrightarrow> sequential (delete_tag_rels parent s)"
| other_tables: "sequential s \<Longrightarrow> sequential (s\<lparr>posts := ps, users := us\<rparr>)"

text \<open>A sequence of \<open>likePost\<close> calls, each on the store the one before left.\<close>

fun run_likes :: "(jsval \<times> jsval) list \<Rightarrow> db \<Rightarrow> db" where
  "run_likes [] s = s"
| "run_likes ((a, b) # cs) s = run_likes cs (snd (likePost a b s))"

text \<open>
  The last effect the calls of such a sequence had on the pair \<open>(p, u)\<close>: \<open>Some True\<close> when
  the last call that changed the pair created a like row, \<open>Some False\<close> when it deleted
  one, \<open>None\<close> when no call changed the pair.
\<close>

fun last_effect :: "int \<Rightarrow> int \<Rightarrow> (jsval \<times> jsval) list \<Rightarrow> db \<Rightarrow> bool option" where
  "last_effect p u [] s = None"
| "last_effect p u ((a, b) # cs) s =
     (case last_effect p u cs (snd (likePost a b s)) of
        Some e \<Rightarrow> Some e
      | None \<Rightarrow>
          (if Number_js a = SafeInt p \<and> Number_js b = SafeInt u
           then (case fst (likePost a b s) of Inr r \<Rightarrow> Some (liked r) | Inl e \<Rightarrow> None)
           else None))"

text \<open>The columns of a user that \<open>getLikesByPostId\<close> reads.\<close>

definition public_columns :: "user \<Rightarrow> int \<times> string option \<times> string option \<times> string option" where
  "public_columns x = (uid x, full_name x, avatar_url x, avatar x)"

section \<open>Integers survive the rounding\<close>

lemma bitlen_pos: "0 < n \<Longrightarrow> 0 < bitlen n"
  by (subst bitlen.simps) simp

lemma bitlen_le: "n < 2 ^ m \<Longrightarrow> bitlen n \<le> m"
proof (induction m arbitrary: n)
  case 0
  then show ?case by (subst bitlen.simps) simp
next
  case (Suc m)
  show ?case
  proof (cases "n = 0")
    case True
    then show ?thesis by (subst bitlen.simps) simp
  next
    case False
    from Suc.prems have "n div 2 < 2 ^ m" by simp
    then have "bitlen (n div 2) \<le> m" by (rule Suc.IH)
    with False show ?thesis by (subst bitlen.simps) simp
  qed
qed

lemma round_half_even_int: "round_half_even (of_int z) = z"
  by (simp add: round_half_even_def)

lemma pow2_nonpos: "e \<le> 0 \<Longrightarrow> pow2 e = 1 / 2 ^ nat (- e)"
  by (cases "e = 0") (simp_all add: pow2_def)

lemma floor_log2_nat:
  assumes "0 < n" and "n < 2 ^ 53"
  shows "- 1 \<le> floor_log2 (of_nat n)" and "floor_log2 (of_nat n) \<le> 52"
proof -
  have q: "quotient_of (of_nat n) = (int n, 1)"
    using quotient_of_int [of "int n"] by simp
  have one: "bitlen (Suc 0) = Suc 0"
    by (subst bitlen.simps, subst bitlen.simps) simp
  from assms have b: "0 < bitlen n" "bitlen n \<le> 53"
    by (simp_all add: bitlen_pos bitlen_le)
  then show "- 1 \<le> floor_log2 (of_nat n)" and "floor_log2 (of_nat n) \<le> 52"
    by (auto simp: floor_log2_def q one Let_def)
qed

lemma nearest_double_nat:
  assumes "n < 2 ^ 53"
  shows "nearest_double (of_nat n) = Some (of_nat n)"
proof (cases "n = 0")
  case True
  then show ?thesis by (simp add: nearest_double_def)
next
  case False
  define e where "e = floor_log2 (of_nat n)"
  define m where "m = nat (52 - e)"
  from False assms floor_log2_nat [of n] have e: "- 1 \<le> e" "e \<le> 52"
    by (simp_all add: e_def)
  then have mx: "max e (- 1022) = e" by simp
  from e have q: "pow2 (e - 52) = 1 / 2 ^ m"
    using pow2_nonpos [of "e - 52"] by (simp add: m_def)
  have "(of_nat n :: rat) / (1 / 2 ^ m) = of_int (int n * 2 ^ m)" by simp
  then have r: "round_half_even (of_nat n / pow2 (e - 52)) = int n * 2 ^ m"
    by (simp only: q round_half_even_int)
  have undo: "of_int (int n * 2 ^ m) * pow2 (e - 52) = (of_nat n :: rat)"
    by (simp add: q)
  have "(of_nat n :: rat) < 2 ^ 53"
    using assms by (metis of_nat_less_iff of_nat_numeral of_nat_power)
  also have "(2 :: rat) ^ 53 < 2 ^ 1024" by simp
  finally have small: "\<not> pow2 1024 \<le> (of_nat n :: rat)" by (simp add: pow2_def)
  from False have nz: "(of_nat n :: rat) \<noteq> 0" by simp
  show ?thesis
    unfolding nearest_double_def Let_def e_def [symmetric] mx r undo
    using nz small by simp
qed

lemma number_of_nat:
  assumes "n < 2 ^ 53"
  shows "number_of neg (of_nat n) = SafeInt (if neg then - int n else int n)"
proof -
  have "(of_nat n :: rat) < 2 ^ 53"
    using assms by (metis of_nat_less_iff of_nat_numeral of_nat_power)
  then show ?thesis
    by (simp add: number_of_def nearest_double_nat [OF assms])
qed

lemma Number_js_JNum:
  assumes "- (2 ^ 53) < n" and "n < 2 ^ 53"
  shows "Number_js (JNum n) = SafeInt n"
proof -
  from assms have "nat \<bar>n\<bar> < 2 ^ 53" by (simp add: nat_less_iff abs_less_iff)
  from number_of_nat [OF this, of "n < 0"] show ?thesis by (simp add: of_nat_nat)
qed
section \<open>The string form of an integer reads back as the integer\<close>

lemma is_dec_char_of: "d < 10 \<Longrightarrow> is_dec (char_of (48 + d :: nat))"
  by (simp add: is_dec_def)

lemma digit_of_char_of: "d < 10 \<Longrightarrow> digit_of (char_of (48 + d :: nat)) = Some d"
  by (simp add: digit_of_def)

lemma digits_of_dec: "list_all is_dec (digits_of n)"
  by (induction n rule: digits_of.induct) (subst digits_of.simps, simp add: is_dec_char_of)

lemma digits_of_nonempty: "digits_of n \<noteq> []"
  by (subst digits_of.simps) simp

lemma digits_in_append:
  "digits_in b (xs @ ys) acc =
     (case digits_in b xs acc of None \<Rightarrow> None | Some v \<Rightarrow> digits_in b ys v)"
  by (induction xs arbitrary: acc) (auto split: option.splits)

lemma digits_in_digits_of: "digits_in 10 (digits_of n) 0 = Some n"
proof (induction n rule: digits_of.induct)
  case (1 n)
  show ?case
  proof (cases "n < 10")
    case True
    then show ?thesis by (subst digits_of.simps) (simp add: digit_of_char_of)
  next
    case False
    with 1 have "digits_in 10 (digits_of (n div 10)) 0 = Some (n div 10)" by simp
    with False show ?thesis
      by (subst digits_of.simps) (simp add: digits_in_append digit_of_char_of)
  qed
qed

lemma is_dec_not_special:
  assumes "is_dec c"
  shows "\<not> is_exp_mark c" and "c \<noteq> CHR ''-''" and "c \<noteq> CHR ''+''"
    and "c \<noteq> CHR ''x''" and "c \<noteq> CHR ''X''" and "c \<noteq> CHR ''o''" and "c \<noteq> CHR ''O''"
    and "c \<noteq> CHR ''b''" and "c \<noteq> CHR ''B''" and "c \<noteq> CHR ''I''"
  using assms by (auto simp: is_dec_def is_exp_mark_def)

text \<open>No white space starts or ends with the byte of a digit or of the minus sign.\<close>

lemma white_space_bytes:
  assumes "is_dec c \<or> c = CHR ''-''"
  shows "\<forall>w\<in>set white_space. hd w \<noteq> c \<and> last w \<noteq> c"
  using assms by (auto simp: white_space_def is_dec_def)

lemma white_space_nonempty: "\<forall>w\<in>set white_space. w \<noteq> []"
  by (simp add: white_space_def)

lemma lead_zero:
  assumes "s \<noteq> []" and "\<forall>w\<in>set ws. hd w \<noteq> hd s"
  shows "lead ws s = 0"
proof -
  have "\<not> (w \<noteq> [] \<and> take (length w) s = w)" if "w \<in> set ws" for w
  proof
    assume a: "w \<noteq> [] \<and> take (length w) s = w"
    then have "hd (take (length w) s) = hd s" using assms(1) by (cases w; cases s) simp_all
    with a assms(2) that show False by auto
  qed
  then have "find (\<lambda>w. w \<noteq> [] \<and> take (length w) s = w) ws = None"
    by (simp add: find_None_iff)
  then show ?thesis by (simp add: lead_def)
qed

lemma strip_id: "lead ws s = 0 \<Longrightarrow> strip ws s = s"
  by (subst strip.simps) simp

lemma trim_id:
  assumes "s \<noteq> []" and "is_dec (hd s) \<or> hd s = CHR ''-''" and "is_dec (last s)"
  shows "trim s = s"
proof -
  from white_space_bytes [OF assms(2)] have "\<forall>w\<in>set white_space. hd w \<noteq> hd s" by blast
  with assms(1) have front: "strip white_space s = s" by (simp add: lead_zero strip_id)
  from white_space_bytes [of "last s"] assms(3) white_space_nonempty
  have "\<forall>w\<in>set (map rev white_space). hd w \<noteq> hd (rev s)"
    using assms(1) by (auto simp: hd_rev)
  with assms(1) have "strip (map rev white_space) (rev s) = rev s"
    by (simp add: lead_zero strip_id)
  with front show ?thesis by (simp add: trim_def)
qed

lemma unsigned_decimal_digits:
  assumes "list_all is_dec ds" and "ds \<noteq> []" and "digits_in 10 ds 0 = Some n"
  shows "unsigned_decimal ds = Exact (of_nat n)"
proof -
  from assms(1) have all: "\<forall>c\<in>set ds. is_dec c" by (simp add: list_all_iff)
  then have m: "takeWhile (\<lambda>c. \<not> is_exp_mark c) ds = ds"
    and e: "dropWhile (\<lambda>c. \<not> is_exp_mark c) ds = []"
    by (auto simp: takeWhile_eq_all_conv dropWhile_eq_Nil_conv is_dec_not_special)
  from all have ip: "takeWhile is_dec ds = ds" and r: "dropWhile is_dec ds = []"
    by (auto simp: takeWhile_eq_all_conv dropWhile_eq_Nil_conv)
  from all assms(2) have "is_dec (hd ds)" by (cases ds) simp_all
  then have "hd ds \<noteq> CHR ''I''" by (rule is_dec_not_special)
  with assms(2) have inf: "ds \<noteq> ''Infinity''" by auto
  show ?thesis
    using all assms(2,3) inf
    by (simp add: unsigned_decimal_def Let_def m e ip r scale_def)
qed

lemma radix_prefix_digits:
  assumes "list_all is_dec ds"
  shows "radix_prefix ds = None"
proof (cases ds)
  case Nil
  then show ?thesis by (simp add: radix_prefix_def)
next
  case (Cons c0 cs)
  show ?thesis
  proof (cases cs)
    case Nil
    with Cons show ?thesis by (simp add: radix_prefix_def)
  next
    case (Cons c1 cs')
    with assms \<open>ds = c0 # cs\<close> have "is_dec c1" by simp
    from is_dec_not_special(4-9) [OF this] Cons \<open>ds = c0 # cs\<close>
    show ?thesis by (simp add: radix_prefix_def)
  qed
qed

lemma StringToNumber_digits:
  assumes "list_all is_dec ds" and "ds \<noteq> []" and "digits_in 10 ds 0 = Some n"
  shows "StringToNumber ds = number_of False (of_nat n)"
    and "StringToNumber (CHR ''-'' # ds) = number_of True (of_nat n)"
proof -
  from assms(1,2) have h: "is_dec (hd ds)" and l: "is_dec (last ds)"
    by (auto simp: list_all_iff)
  from assms(2) h l have t1: "trim ds = ds" by (simp add: trim_id)
  from assms(2) have "hd ds \<noteq> CHR ''-''" "hd ds \<noteq> CHR ''+''"
    using h by (simp_all add: is_dec_not_special)
  with assms(2) have s1: "strip_sign ds = (False, ds)"
    by (cases ds) (simp_all add: strip_sign_def)
  have u: "unsigned_decimal ds = Exact (of_nat n)"
    using assms by (rule unsigned_decimal_digits)
  show "StringToNumber ds = number_of False (of_nat n)"
    using assms(2) by (simp add: StringToNumber_def t1 radix_prefix_digits [OF assms(1)] s1 u)
  from assms(2) l have t2: "trim (CHR ''-'' # ds) = CHR ''-'' # ds"
    by (intro trim_id) simp_all
  have r2: "radix_prefix (CHR ''-'' # ds) = None"
    by (cases ds) (simp_all add: radix_prefix_def)
  have s2: "strip_sign (CHR ''-'' # ds) = (True, ds)" by (simp add: strip_sign_def)
  show "StringToNumber (CHR ''-'' # ds) = number_of True (of_nat n)"
    by (simp add: StringToNumber_def t2 r2 s2 u)
qed

lemma Number_js_String_js: "Number_js (JStr (String_js n)) = Number_js (JNum n)"
proof (cases "n < 0")
  case True
  from StringToNumber_digits(2) [OF digits_of_dec digits_of_nonempty digits_in_digits_of,
      of "nat (- n)"] True
  show ?thesis by (simp add: String_js_def of_nat_nat abs_if)
next
  case False
  from StringToNumber_digits(1) [OF digits_of_dec digits_of_nonempty digits_in_digits_of,
      of "nat n"] False
  show ?thesis by (simp add: String_js_def of_nat_nat abs_if)
qed

lemma Number_js_digits:
  assumes "- (2 ^ 53) < n" and "n < 2 ^ 53"
  shows "Number_js (JStr (String_js n)) = SafeInt n"
  using assms by (simp only: Number_js_String_js Number_js_JNum)

section \<open>Facts about the client's operations\<close>

lemma js_eq_SafeInt [simp]:
  "js_eq (SafeInt a) x \<longleftrightarrow> x = SafeInt a"
  "js_eq x (SafeInt a) \<longleftrightarrow> x = SafeInt a"
  by (auto simp: js_eq_def)

lemma js_eq_imp_eq: "js_eq x y \<Longrightarrow> x = y"
  by (simp add: js_eq_def)

lemma filter_other_ids:
  assumes "distinct (map rel_id rows)" and "e \<in> set rows"
  shows "filter (\<lambda>r. rel_id r \<noteq> rel_id e) rows = remove1 e rows"
  using assms
proof (induction rows)
  case Nil
  then show ?case by simp
next
  case (Cons a rows)
  show ?case
  proof (cases "a = e")
    case True
    from Cons.prems True have "rel_id e \<notin> rel_id ` set rows" by simp
    then have "\<forall>r\<in>set rows. rel_id r \<noteq> rel_id e" by (metis imageI)
    then have "filter (\<lambda>r. rel_id r \<noteq> rel_id e) rows = rows"
      by (simp add: filter_id_conv)
    with True show ?thesis by simp
  next
    case False
    with Cons.prems have in_rest: "e \<in> set rows" by simp
    with Cons.prems have "rel_id a \<noteq> rel_id e" by force
    with Cons.IH Cons.prems in_rest False show ?thesis by simp
  qed
qed

lemma length_filter_remove1:
  assumes "e \<in> set rows"
  shows "length (filter wh (remove1 e rows)) + (if wh e then 1 else 0) = length (filter wh rows)"
  using assms by (induction rows) auto

lemma findFirst_Some:
  "posts_rels_findFirst wh s = Some e \<Longrightarrow> e \<in> set (posts_rels s) \<and> wh e"
  by (auto simp: posts_rels_findFirst_def find_Some_iff)

lemma findFirst_None:
  "posts_rels_findFirst wh s = None \<longleftrightarrow> (\<forall>r\<in>set (posts_rels s). \<not> wh r)"
  by (auto simp: posts_rels_findFirst_def find_None_iff)

lemma like_of_likes_on: "like_of p u r \<Longrightarrow> likes_on p r"
  by (simp add: like_of_def likes_on_def)

lemma like_of_SafeInt:
  "like_of (SafeInt p) (SafeInt u) r \<longleftrightarrow>
     parent_id r = SafeInt p \<and> user_id r = Some (SafeInt u) \<and> path r = ''likedBy''"
  by (auto simp: like_of_def user_is_def split: option.splits)

lemma likes_on_SafeInt:
  "likes_on (SafeInt p) r \<longleftrightarrow> parent_id r = SafeInt p \<and> path r = ''likedBy''"
  by (auto simp: likes_on_def)

lemma posts_findUnique_SafeInt:
  "posts_findUnique (SafeInt p) s = None \<longleftrightarrow> p \<notin> post_id ` set (posts s)"
  by (auto simp: posts_findUnique_def find_None_iff)

lemma posts_findUnique_Some:
  "posts_findUnique x s = Some post \<Longrightarrow> x = SafeInt (post_id post)"
  by (auto simp: posts_findUnique_def find_Some_iff js_eq_def)

lemma delete_found:
  assumes "e \<in> set (posts_rels s)"
  shows "posts_rels_delete (rel_id e) s =
           Inr (s\<lparr>posts_rels := filter (\<lambda>r. rel_id r \<noteq> rel_id e) (posts_rels s)\<rparr>)"
  using assms by (auto simp: posts_rels_delete_def find_None_iff)

lemma delete_rows:
  assumes "pk_ok s" and "e \<in> set (posts_rels s)"
  shows "posts_rels_delete (rel_id e) s = Inr (s\<lparr>posts_rels := remove1 e (posts_rels s)\<rparr>)"
  using assms by (simp add: delete_found pk_ok_def filter_other_ids)

lemma likePost_present:
  assumes "posts_findUnique (Number_js a) s = Some post"
    and "posts_rels_findFirst (like_of (Number_js a) (Number_js b)) s = Some e"
  shows "likePost a b s =
           (Inr \<lparr>liked = False,
                 likeCount = length (filter (likes_on (Number_js a))
                               (filter (\<lambda>r. rel_id r \<noteq> rel_id e) (posts_rels s))),
                 message = ''Post unliked successfully''\<rparr>,
            s\<lparr>posts_rels := filter (\<lambda>r. rel_id r \<noteq> rel_id e) (posts_rels s)\<rparr>)"
  using assms delete_found [of e s] findFirst_Some [OF assms(2)]
  by (simp add: likePost_def Let_def posts_rels_count_def)

lemma likePost_absent:
  assumes "posts_findUnique (Number_js a) s = Some post"
    and "posts_rels_findFirst (like_of (Number_js a) (Number_js b)) s = None"
  shows "likePost a b s =
           (Inr \<lparr>liked = True,
                 likeCount = posts_rels_count (likes_on (Number_js a))
                               (posts_rels_create (Number_js a) (Some (Number_js b)) None
                                  ''likedBy'' s),
                 message = ''Post liked successfully''\<rparr>,
            posts_rels_create (Number_js a) (Some (Number_js b)) None ''likedBy'' s)"
  using assms by (simp add: likePost_def Let_def)

lemma likePost_not_found:
  assumes "posts_findUnique (Number_js a) s = None"
  shows "likePost a b s = (Inl (Error ''Post not found''), s)"
  using assms by (simp add: likePost_def)

section \<open>likePost is a toggle\<close>

text \<open>
  Claim C1. When the post id refers to an existing post, \<open>likePost\<close> looks for the like row
  of the (post, user) pair. If there is one, exactly that row is deleted and the result
  is \<open>liked = false\<close>; if there is none, one like row of the pair is appended and the
  result is \<open>liked = true\<close>. In both cases \<open>likeCount\<close> is the number of like rows of the
  post in the store afterwards (one less, respectively one more, than before), and the
  other tables are untouched.
\<close>

theorem likePost_toggle:
  assumes "pk_ok s"
    and "Number_js postId = SafeInt p" and "Number_js userId = SafeInt u"
    and "posts_findUnique (SafeInt p) s \<noteq> None"
  shows "\<exists>r s'. likePost postId userId s = (Inr r, s') \<and>
           likeCount r = posts_rels_count (likes_on (SafeInt p)) s' \<and>
           posts s' = posts s \<and> users s' = users s \<and>
           (case posts_rels_findFirst (like_of (SafeInt p) (SafeInt u)) s of
              Some e \<Rightarrow>
                liked r = False \<and> e \<in> set (posts_rels s) \<and>
                like_of (SafeInt p) (SafeInt u) e \<and>
                posts_rels s' = remove1 e (posts_rels s) \<and>
                likeCount r + 1 = posts_rels_count (likes_on (SafeInt p)) s
            | None \<Rightarrow>
                liked r = True \<and>
                (\<exists>e. like_of (SafeInt p) (SafeInt u) e \<and> posts_rels s' = posts_rels s @ [e]) \<and>
                likeCount r = posts_rels_count (likes_on (SafeInt p)) s + 1)"
proof -
  from assms(4) obtain post where post: "posts_findUnique (Number_js postId) s = Some post"
    by (auto simp: assms(2))
  show ?thesis
  proof (cases "posts_rels_findFirst (like_of (SafeInt p) (SafeInt u)) s")
    case None
    let ?s' = "posts_rels_create (SafeInt p) (Some (SafeInt u)) None ''likedBy'' s"
    have "likePost postId userId s =
            (Inr \<lparr>liked = True, likeCount = posts_rels_count (likes_on (SafeInt p)) ?s',
                  message = ''Post liked successfully''\<rparr>, ?s')"
      using likePost_absent [OF post, of userId] None by (simp add: assms(2,3))
    moreover have "posts_rels_count (likes_on (SafeInt p)) ?s' =
        posts_rels_count (likes_on (SafeInt p)) s + 1"
      by (simp add: posts_rels_count_def posts_rels_create_def likes_on_def)
    moreover have "\<exists>e. like_of (SafeInt p) (SafeInt u) e \<and> posts_rels ?s' = posts_rels s @ [e]"
      by (simp add: posts_rels_create_def like_of_SafeInt)
    moreover have "posts ?s' = posts s" "users ?s' = users s"
      by (simp_all add: posts_rels_create_def)
    ultimately show ?thesis using None by simp
  next
    case (Some e)
    let ?s' = "s\<lparr>posts_rels := remove1 e (posts_rels s)\<rparr>"
    from findFirst_Some [OF Some] have e: "e \<in> set (posts_rels s)"
      "like_of (SafeInt p) (SafeInt u) e" by simp_all
    have rows: "filter (\<lambda>r. rel_id r \<noteq> rel_id e) (posts_rels s) = remove1 e (posts_rels s)"
      using assms(1) e(1) by (simp add: pk_ok_def filter_other_ids)
    have run: "likePost postId userId s =
            (Inr \<lparr>liked = False, likeCount = posts_rels_count (likes_on (SafeInt p)) ?s',
                  message = ''Post unliked successfully''\<rparr>, ?s')"
      using likePost_present [OF post, of userId e] Some
      by (simp add: assms(2,3) rows posts_rels_count_def)
    have cnt: "posts_rels_count (likes_on (SafeInt p)) ?s' + 1 =
        posts_rels_count (likes_on (SafeInt p)) s"
      using length_filter_remove1 [OF e(1), of "likes_on (SafeInt p)"] like_of_likes_on [OF e(2)]
      by (simp add: posts_rels_count_def)
    from run cnt e Some show ?thesis by simp
  qed
qed

theorem likePost_toggle_witness:
  "pk_ok \<lparr>posts = [\<lparr>post_id = 7, title = ''t''\<rparr>],
          posts_rels = [\<lparr>rel_id = 1, parent_id = SafeInt 7, user_id = Some (SafeInt 1),
                         tags_id = None, path = ''likedBy''\<rparr>],
          users = [], posts_rels_seq = 2\<rparr> \<and>
   Number_js (JNum 7) = SafeInt 7 \<and> Number_js (JStr ''1'') = SafeInt 1 \<and>
   (\<exists>r s'. likePost (JNum 7) (JStr ''1'')
              \<lparr>posts = [\<lparr>post_id = 7, title = ''t''\<rparr>],
               posts_rels = [\<lparr>rel_id = 1, parent_id = SafeInt 7, user_id = Some (SafeInt 1),
                              tags_id = None, path = ''likedBy''\<rparr>],
               users = [], posts_rels_seq = 2\<rparr> = (Inr r, s') \<and>
            liked r = False \<and> likeCount r = 0 \<and> posts_rels s' = [])"
proof -
  let ?s = "\<lparr>posts = [\<lparr>post_id = 7, title = ''t''\<rparr>],
             posts_rels = [\<lparr>rel_id = 1, parent_id = SafeInt 7, user_id = Some (SafeInt 1),
                            tags_id = None, path = ''likedBy''\<rparr>],
             users = [], posts_rels_seq = 2\<rparr>"
  have h1: "pk_ok ?s" by (simp add: pk_ok_def)
  have h2: "Number_js (JNum 7) = SafeInt 7" by (rule Number_js_JNum) simp_all
  have "String_js 1 = ''1''" by code_simp
  with Number_js_digits [of 1] have h3: "Number_js (JStr ''1'') = SafeInt 1" by simp
  have h4: "posts_findUnique (SafeInt 7) ?s \<noteq> None" by (simp add: posts_findUnique_def)
  have found: "posts_rels_findFirst (like_of (SafeInt 7) (SafeInt 1)) ?s =
      Some \<lparr>rel_id = 1, parent_id = SafeInt 7, user_id = Some (SafeInt 1), tags_id = None,
            path = ''likedBy''\<rparr>"
    by (simp add: posts_rels_findFirst_def like_of_SafeInt)
  from likePost_toggle [OF h1 h2 h3 h4] found h1 h2 h3 show ?thesis
    by (auto simp: posts_rels_count_def likes_on_def)
qed

section \<open>The primary key is kept\<close>

lemma pk_ok_filter: "pk_ok s \<Longrightarrow> pk_ok (s\<lparr>posts_rels := filter R (posts_rels s)\<rparr>)"
  by (simp add: pk_ok_def distinct_map_filter list_all_iff)

lemma pk_ok_create: "pk_ok s \<Longrightarrow> pk_ok (posts_rels_create p u t pth s)"
  by (auto simp: pk_ok_def posts_rels_create_def list_all_iff)

lemma likePost_cases:
  "snd (likePost a b s) = s \<or>
   (\<exists>e. posts_rels_findFirst (like_of (Number_js a) (Number_js b)) s = Some e \<and>
      snd (likePost a b s) =
        s\<lparr>posts_rels := filter (\<lambda>r. rel_id r \<noteq> rel_id e) (posts_rels s)\<rparr>) \<or>
   (posts_rels_findFirst (like_of (Number_js a) (Number_js b)) s = None \<and>
      snd (likePost a b s) =
        posts_rels_create (Number_js a) (Some (Number_js b)) None ''likedBy'' s)"
proof (cases "posts_findUnique (Number_js a) s")
  case None
  then show ?thesis by (simp add: likePost_not_found)
next
  case (Some post)
  show ?thesis
  proof (cases "posts_rels_findFirst (like_of (Number_js a) (Number_js b)) s")
    case None
    with likePost_absent [OF Some None] show ?thesis by simp
  next
    case (Some e)
    with likePost_present [OF \<open>posts_findUnique (Number_js a) s = Some post\<close> Some]
    show ?thesis by simp
  qed
qed

lemma pk_ok_likePost: "pk_ok s \<Longrightarrow> pk_ok (snd (likePost a b s))"
  using likePost_cases [of a b s] by (auto simp: pk_ok_filter pk_ok_create)

lemma pk_ok_distinct: "pk_ok s \<Longrightarrow> distinct (posts_rels s)"
  by (simp add: pk_ok_def distinct_map)

lemma likePost_Inr:
  assumes "likePost a b s = (Inr r, s')"
  obtains post where "posts_findUnique (Number_js a) s = Some post"
  using assms by (cases "posts_findUnique (Number_js a) s") (auto simp: likePost_not_found)

lemma likePost_count:
  assumes "likePost postId userId s = (Inr r, s')"
  shows "\<exists>p. Number_js postId = SafeInt p \<and>
           likeCount r = posts_rels_count (likes_on (SafeInt p)) s'"
proof -
  from assms obtain post where post: "posts_findUnique (Number_js postId) s = Some post"
    by (rule likePost_Inr)
  then have p: "Number_js postId = SafeInt (post_id post)" by (rule posts_findUnique_Some)
  have "likeCount r = posts_rels_count (likes_on (Number_js postId)) s'"
  proof (cases "posts_rels_findFirst (like_of (Number_js postId) (Number_js userId)) s")
    case None
    from likePost_absent [OF post None] assms show ?thesis by auto
  next
    case (Some e)
    from likePost_present [OF post Some] assms show ?thesis
      by (auto simp: posts_rels_count_def)
  qed
  with p show ?thesis by auto
qed

section \<open>A missing post\<close>

text \<open>
  Claim C6. When the post id does not refer to an existing post, \<open>likePost\<close> throws
  \<open>Error('Post not found')\<close> whatever the user id is, and the store is the one it was
  given; the \<open>/post/like\<close> route, once both fields passed its presence check, answers
  that with status 404 (not 500) and leaves the store unchanged as well.
\<close>

theorem likePost_missing_post:
  assumes "Number_js postId = SafeInt p" and "p \<notin> post_id ` set (posts s)"
  shows "likePost postId userId s = (Inl (Error ''Post not found''), s) \<and>
         (truthy postId \<and> truthy userId \<longrightarrow>
            post_like_route \<lparr>body_postId = postId, body_userId = userId\<rparr> s =
              (Sent 404 (ErrorBody ''Post not found''), s))"
proof -
  from assms have "posts_findUnique (Number_js postId) s = None"
    by (simp add: posts_findUnique_SafeInt)
  then have thrown: "likePost postId userId s = (Inl (Error ''Post not found''), s)"
    by (rule likePost_not_found)
  then show ?thesis by (simp add: post_like_route_def)
qed

theorem likePost_missing_post_witness:
  "Number_js (JNum 999999) = SafeInt 999999 \<and>
   999999 \<notin> post_id ` set (posts \<lparr>posts = [\<lparr>post_id = 7, title = ''t''\<rparr>], posts_rels = [],
                                      users = [], posts_rels_seq = 1\<rparr>) \<and>
   likePost (JNum 999999) (JNum 1)
     \<lparr>posts = [\<lparr>post_id = 7, title = ''t''\<rparr>], posts_rels = [], users = [],
      posts_rels_seq = 1\<rparr> =
     (Inl (Error ''Post not found''),
      \<lparr>posts = [\<lparr>post_id = 7, title = ''t''\<rparr>], posts_rels = [], users = [],
       posts_rels_seq = 1\<rparr>) \<and>
   post_like_route \<lparr>body_postId = JNum 999999, body_userId = JNum 1\<rparr>
     \<lparr>posts = [\<lparr>post_id = 7, title = ''t''\<rparr>], posts_rels = [], users = [],
      posts_rels_seq = 1\<rparr> =
     (Sent 404 (ErrorBody ''Post not found''),
      \<lparr>posts = [\<lparr>post_id = 7, title = ''t''\<rparr>], posts_rels = [], users = [],
       posts_rels_seq = 1\<rparr>)"
proof -
  let ?s = "\<lparr>posts = [\<lparr>post_id = 7, title = ''t''\<rparr>], posts_rels = [], users = [],
             posts_rels_seq = 1\<rparr>"
  have h1: "Number_js (JNum 999999) = SafeInt 999999" by (rule Number_js_JNum) simp_all
  have h2: "999999 \<notin> post_id ` set (posts ?s)" by simp
  from likePost_missing_post [OF h1 h2, of "JNum 1"] h1 h2 show ?thesis by simp
qed

section \<open>The like count is the live number of like rows\<close>

text \<open>
  Claim C4. The \<open>likeCount\<close> that \<open>likePost\<close> returns is the number of like rows of the
  post in the store it leaves, and the \<open>likeCount\<close> that \<open>getPostById\<close> computes is the
  number of like rows of the post in the store it reads: in both cases the cardinality
  of the set of rows with that parent and path \<open>likedBy\<close>. The store has no counter
  column, so there is nothing that could drift.
\<close>

theorem like_count_is_live_count:
  assumes "pk_ok s"
  shows "(\<forall>r s'. likePost postId userId s = (Inr r, s') \<longrightarrow>
            (\<exists>p. Number_js postId = SafeInt p \<and>
               likeCount r =
                 card {e \<in> set (posts_rels s').
                       parent_id e = SafeInt p \<and> path e = ''likedBy''})) \<and>
         (\<forall>v. getPostById i s = Some v \<longrightarrow>
            (\<exists>p. Number_js i = SafeInt p \<and>
               pv_likeCount v =
                 card {e \<in> set (posts_rels s).
                       parent_id e = SafeInt p \<and> path e = ''likedBy''}))"
proof (intro conjI allI impI)
  fix r s'
  assume run: "likePost postId userId s = (Inr r, s')"
  then obtain p where p: "Number_js postId = SafeInt p"
      "likeCount r = posts_rels_count (likes_on (SafeInt p)) s'"
    using likePost_count by blast
  from run have "s' = snd (likePost postId userId s)" by simp
  with assms have "distinct (posts_rels s')" by (simp add: pk_ok_likePost pk_ok_distinct)
  then have "posts_rels_count (likes_on (SafeInt p)) s' =
      card {e \<in> set (posts_rels s'). parent_id e = SafeInt p \<and> path e = ''likedBy''}"
    by (simp add: posts_rels_count_def likes_on_def distinct_length_filter Int_def conj_commute
        cong: conj_cong)
  with p show "\<exists>p. Number_js postId = SafeInt p \<and>
      likeCount r =
        card {e \<in> set (posts_rels s'). parent_id e = SafeInt p \<and> path e = ''likedBy''}"
    by auto
next
  fix v
  assume got: "getPostById i s = Some v"
  then obtain post where post: "posts_findUnique (Number_js i) s = Some post"
    and v: "pv_likeCount v =
         length (filter (\<lambda>rel. path rel = ''likedBy'')
                   (filter (\<lambda>r. js_eq (parent_id r) (SafeInt (post_id post))) (posts_rels s)))"
    by (auto simp: getPostById_def Let_def split: option.splits)
  from post have p: "Number_js i = SafeInt (post_id post)" by (rule posts_findUnique_Some)
  from assms have "distinct (posts_rels s)" by (rule pk_ok_distinct)
  then have "length (filter (\<lambda>rel. path rel = ''likedBy'')
                   (filter (\<lambda>r. js_eq (parent_id r) (SafeInt (post_id post))) (posts_rels s))) =
      card {e \<in> set (posts_rels s).
            parent_id e = SafeInt (post_id post) \<and> path e = ''likedBy''}"
    by (simp add: distinct_length_filter Int_def conj_commute cong: conj_cong)
  with p v show "\<exists>p. Number_js i = SafeInt p \<and>
      pv_likeCount v =
        card {e \<in> set (posts_rels s). parent_id e = SafeInt p \<and> path e = ''likedBy''}"
    by auto
qed

theorem like_count_is_live_count_witness:
  "pk_ok \<lparr>posts = [\<lparr>post_id = 7, title = ''t''\<rparr>],
          posts_rels = [\<lparr>rel_id = 1, parent_id = SafeInt 7, user_id = Some (SafeInt 1),
                         tags_id = None, path = ''likedBy''\<rparr>],
          users = [], posts_rels_seq = 2\<rparr> \<and>
   (\<exists>r s'. likePost (JNum 7) (JNum 2)
              \<lparr>posts = [\<lparr>post_id = 7, title = ''t''\<rparr>],
               posts_rels = [\<lparr>rel_id = 1, parent_id = SafeInt 7, user_id = Some (SafeInt 1),
                              tags_id = None, path = ''likedBy''\<rparr>],
               users = [], posts_rels_seq = 2\<rparr> = (Inr r, s') \<and>
            likeCount r = 2 \<and>
            likeCount r =
              card {e \<in> set (posts_rels s').
                    parent_id e = SafeInt 7 \<and> path e = ''likedBy''}) \<and>
   (\<exists>v. getPostById (JNum 7)
            \<lparr>posts = [\<lparr>post_id = 7, title = ''t''\<rparr>],
             posts_rels = [\<lparr>rel_id = 1, parent_id = SafeInt 7, user_id = Some (SafeInt 1),
                            tags_id = None, path = ''likedBy''\<rparr>],
             users = [], posts_rels_seq = 2\<rparr> = Some v \<and>
          pv_likeCount v = 1 \<and>
          pv_likeCount v =
            card {e \<in> set [\<lparr>rel_id = 1, parent_id = SafeInt 7, user_id = Some (SafeInt 1),
                              tags_id = None, path = ''likedBy''\<rparr>].
                  parent_id e = SafeInt 7 \<and> path e = ''likedBy''})"
proof -
  let ?s = "\<lparr>posts = [\<lparr>post_id = 7, title = ''t''\<rparr>],
             posts_rels = [\<lparr>rel_id = 1, parent_id = SafeInt 7, user_id = Some (SafeInt 1),
                            tags_id = None, path = ''likedBy''\<rparr>],
             users = [], posts_rels_seq = 2\<rparr>"
  have h: "pk_ok ?s" by (simp add: pk_ok_def)
  have num: "Number_js (JNum 7) = SafeInt 7" "Number_js (JNum 2) = SafeInt 2"
    by (rule Number_js_JNum; simp)+
  have run: "likePost (JNum 7) (JNum 2) ?s =
      (Inr \<lparr>liked = True, likeCount = 2, message = ''Post liked successfully''\<rparr>,
       posts_rels_create (SafeInt 7) (Some (SafeInt 2)) None ''likedBy'' ?s)"
    by (simp add: likePost_def Let_def num posts_findUnique_def posts_rels_findFirst_def
        like_of_SafeInt posts_rels_count_def posts_rels_create_def likes_on_def
        del: Number_js.simps)
  have got: "getPostById (JNum 7) ?s =
      Some \<lparr>pv_post = \<lparr>post_id = 7, title = ''t''\<rparr>, pv_likeCount = 1\<rparr>"
    by (simp add: getPostById_def Let_def num posts_findUnique_def del: Number_js.simps)
  from like_count_is_live_count [OF h, of "JNum 7" "JNum 2" "JNum 7"] run got num
  have "likeCount \<lparr>liked = True, likeCount = 2, message = ''Post liked successfully''\<rparr> =
          card {e \<in> set (posts_rels
                    (posts_rels_create (SafeInt 7) (Some (SafeInt 2)) None ''likedBy'' ?s)).
                parent_id e = SafeInt 7 \<and> path e = ''likedBy''}"
    and "pv_likeCount \<lparr>pv_post = \<lparr>post_id = 7, title = ''t''\<rparr>, pv_likeCount = 1\<rparr> =
          card {e \<in> set (posts_rels ?s). parent_id e = SafeInt 7 \<and> path e = ''likedBy''}"
    by auto
  with h run got show ?thesis by simp
qed

section \<open>Who liked a post\<close>

lemma getLikesByPostId_rows:
  "getLikesByPostId postId s =
     map (format_like s) (filter (likes_on (Number_js postId)) (posts_rels s))"
  by (simp add: getLikesByPostId_def posts_rels_findMany_def)

lemma format_like_user:
  "case lv_user (format_like s e) of
     None \<Rightarrow> include_user s e = None
   | Some us \<Rightarrow>
       (\<exists>x\<in>set (users s). user_id e = Some (SafeInt (uid x)) \<and> us_id us = uid x \<and>
          us_full_name us = full_name x \<and> us_avatar_url us = avatar_url x \<and>
          us_avatarUrl us =
            (case avatar x of
               None \<Rightarrow> None
             | Some a \<Rightarrow> if a \<noteq> [] then Some (IMAGE_BASE_URL @ a) else None))"
proof (cases "include_user s e")
  case None
  then show ?thesis by (simp add: format_like_def)
next
  case (Some x)
  then obtain u where u: "user_id e = Some u"
      "find (\<lambda>x. js_eq (SafeInt (uid x)) u) (users s) = Some x"
    by (auto simp: include_user_def split: option.splits)
  then have "x \<in> set (users s)" "u = SafeInt (uid x)" by (auto simp: find_Some_iff)
  with Some u show ?thesis by (auto simp: format_like_def)
qed

text \<open>
  Claim C8. \<open>getLikesByPostId\<close> returns, in storage order, one element per like row of
  the post: the element carries the row's id and the row's user id, and the users that
  occur in the result are exactly the users who hold a like row on the post. The user
  summary of an element is \<open>null\<close> only when the row names no user or no such user row
  exists; otherwise it is the summary of that user.
\<close>

theorem getLikesByPostId_lists_likers:
  assumes "Number_js postId = SafeInt p"
  shows "\<exists>vs. getLikesByPostId postId s = vs \<and>
           length vs = posts_rels_count (likes_on (SafeInt p)) s \<and>
           map lv_id vs = map rel_id (filter (likes_on (SafeInt p)) (posts_rels s)) \<and>
           map lv_userId vs = map user_id (filter (likes_on (SafeInt p)) (posts_rels s)) \<and>
           {u. Some u \<in> lv_userId ` set vs} =
             {u. \<exists>e\<in>set (posts_rels s).
                   parent_id e = SafeInt p \<and> user_id e = Some u \<and> path e = ''likedBy''} \<and>
           (\<forall>v\<in>set vs.
              case lv_user v of
                None \<Rightarrow>
                  lv_userId v = None \<or>
                  (\<forall>x\<in>set (users s). lv_userId v \<noteq> Some (SafeInt (uid x)))
              | Some us \<Rightarrow>
                  lv_userId v = Some (SafeInt (us_id us)) \<and>
                  (\<exists>x\<in>set (users s). uid x = us_id us \<and> us_full_name us = full_name x \<and>
                     us_avatar_url us = avatar_url x))"
proof -
  let ?rows = "filter (likes_on (SafeInt p)) (posts_rels s)"
  let ?vs = "map (format_like s) ?rows"
  have run: "getLikesByPostId postId s = ?vs"
    using assms by (simp add: getLikesByPostId_rows)
  have len: "length ?vs = posts_rels_count (likes_on (SafeInt p)) s"
    by (simp add: posts_rels_count_def)
  have ids: "map lv_id ?vs = map rel_id ?rows"
    by (simp add: format_like_def)
  have uids: "map lv_userId ?vs = map user_id ?rows"
    by (simp add: format_like_def)
  have "lv_userId ` set ?vs = user_id ` set ?rows"
    using uids by (metis set_map)
  then have users: "{u. Some u \<in> lv_userId ` set ?vs} =
      {u. \<exists>e\<in>set (posts_rels s).
            parent_id e = SafeInt p \<and> user_id e = Some u \<and> path e = ''likedBy''}"
    by (auto simp: likes_on_SafeInt image_iff)
  have each: "\<forall>v\<in>set ?vs.
      case lv_user v of
        None \<Rightarrow>
          lv_userId v = None \<or> (\<forall>x\<in>set (users s). lv_userId v \<noteq> Some (SafeInt (uid x)))
      | Some us \<Rightarrow>
          lv_userId v = Some (SafeInt (us_id us)) \<and>
          (\<exists>x\<in>set (users s). uid x = us_id us \<and> us_full_name us = full_name x \<and>
             us_avatar_url us = avatar_url x)"
  proof
    fix v
    assume "v \<in> set ?vs"
    then obtain e where v: "v = format_like s e" by auto
    have uid_v: "lv_userId v = user_id e" by (simp add: v format_like_def)
    show "case lv_user v of
        None \<Rightarrow>
          lv_userId v = None \<or> (\<forall>x\<in>set (users s). lv_userId v \<noteq> Some (SafeInt (uid x)))
      | Some us \<Rightarrow>
          lv_userId v = Some (SafeInt (us_id us)) \<and>
          (\<exists>x\<in>set (users s). uid x = us_id us \<and> us_full_name us = full_name x \<and>
             us_avatar_url us = avatar_url x)"
    proof (cases "lv_user v")
      case None
      with format_like_user [of s e] have "include_user s e = None" by (simp add: v)
      then have "user_id e = None \<or> (\<forall>x\<in>set (users s). user_id e \<noteq> Some (SafeInt (uid x)))"
        by (auto simp: include_user_def find_None_iff split: option.splits)
      with None uid_v show ?thesis by simp
    next
      case (Some us)
      with format_like_user [of s e] uid_v show ?thesis by (auto simp: v)
    qed
  qed
  from run len ids uids users each show ?thesis by blast
qed

theorem getLikesByPostId_lists_likers_witness:
  "Number_js (JStr ''7'') = SafeInt 7 \<and>
   getLikesByPostId (JStr ''7'')
     \<lparr>posts = [\<lparr>post_id = 7, title = ''t''\<rparr>],
      posts_rels =
        [\<lparr>rel_id = 1, parent_id = SafeInt 7, user_id = Some (SafeInt 1), tags_id = None, path = ''likedBy''\<rparr>,
         \<lparr>rel_id = 2, parent_id = SafeInt 7, user_id = None, tags_id = Some (SafeInt 4), path = ''tags''\<rparr>,
         \<lparr>rel_id = 3, parent_id = SafeInt 7, user_id = Some (SafeInt 2), tags_id = None, path = ''likedBy''\<rparr>,
         \<lparr>rel_id = 4, parent_id = SafeInt 8, user_id = Some (SafeInt 5), tags_id = None, path = ''likedBy''\<rparr>],
      users =
        [\<lparr>uid = 1, full_name = Some ''An'', avatar_url = None, avatar = Some ''a.png'',
          email = ''an@x.org'', password = ''PW1''\<rparr>],
      posts_rels_seq = 5\<rparr> =
     [\<lparr>lv_id = 1, lv_userId = Some (SafeInt 1),
           lv_user = Some \<lparr>us_id = 1, us_full_name = Some ''An'', us_avatar_url = None,
                            us_avatarUrl = Some ''https://qauff8c31y.ufs.sh/f/a.png''\<rparr>\<rparr>,
      \<lparr>lv_id = 3, lv_userId = Some (SafeInt 2), lv_user = None\<rparr>]"
proof -
  let ?s = "\<lparr>posts = [\<lparr>post_id = 7, title = ''t''\<rparr>],
      posts_rels =
        [\<lparr>rel_id = 1, parent_id = SafeInt 7, user_id = Some (SafeInt 1), tags_id = None, path = ''likedBy''\<rparr>,
         \<lparr>rel_id = 2, parent_id = SafeInt 7, user_id = None, tags_id = Some (SafeInt 4), path = ''tags''\<rparr>,
         \<lparr>rel_id = 3, parent_id = SafeInt 7, user_id = Some (SafeInt 2), tags_id = None, path = ''likedBy''\<rparr>,
         \<lparr>rel_id = 4, parent_id = SafeInt 8, user_id = Some (SafeInt 5), tags_id = None, path = ''likedBy''\<rparr>],
      users =
        [\<lparr>uid = 1, full_name = Some ''An'', avatar_url = None, avatar = Some ''a.png'',
          email = ''an@x.org'', password = ''PW1''\<rparr>],
      posts_rels_seq = 5\<rparr>"
  have "String_js 7 = ''7''" by code_simp
  with Number_js_digits [of 7] have h: "Number_js (JStr ''7'') = SafeInt 7" by simp
  from getLikesByPostId_lists_likers [OF h, of ?s] h show ?thesis
    by (simp add: getLikesByPostId_rows likes_on_def format_like_def
        include_user_def IMAGE_BASE_URL_def del: Number_js.simps)
qed

section \<open>Only the public user columns reach the result\<close>

lemma find_public:
  assumes "map public_columns xs = map public_columns ys"
  shows "map_option public_columns (find (\<lambda>x. js_eq (SafeInt (uid x)) u) xs) =
         map_option public_columns (find (\<lambda>x. js_eq (SafeInt (uid x)) u) ys)"
proof -
  from assms have "length xs = length ys" by (metis length_map)
  then show ?thesis using assms
    by (induction xs ys rule: list_induct2) (auto simp: public_columns_def)
qed

lemma format_like_public:
  assumes "map public_columns (users s) = map public_columns (users t)"
  shows "format_like s e = format_like t e"
proof -
  have "map_option public_columns (include_user s e) =
        map_option public_columns (include_user t e)"
    using find_public [OF assms] by (simp add: include_user_def split: option.split)
  then show ?thesis
    by (cases "include_user s e"; cases "include_user t e")
       (auto simp: format_like_def public_columns_def)
qed

text \<open>
  Claim C9. The elements of \<open>getLikesByPostId\<close> hold the edge id, the user id and the
  user's \<open>id\<close>, \<open>full_name\<close>, \<open>avatar_url\<close> and the \<open>avatarUrl\<close> built from \<open>avatar\<close>. Two stores
  with the same relation rows whose users agree on these columns give the same result,
  whatever the other user columns (\<open>email\<close>, \<open>password\<close>) hold.
\<close>

theorem getLikesByPostId_hides_private_columns:
  assumes "posts_rels s = posts_rels t"
    and "map public_columns (users s) = map public_columns (users t)"
  shows "getLikesByPostId postId s = getLikesByPostId postId t"
  using assms(1) format_like_public [OF assms(2)]
  by (simp add: getLikesByPostId_def posts_rels_findMany_def)

theorem getLikesByPostId_hides_private_columns_witness:
  "map public_columns (users
     \<lparr>posts = [\<lparr>post_id = 7, title = ''t''\<rparr>],
      posts_rels =
        [\<lparr>rel_id = 1, parent_id = SafeInt 7, user_id = Some (SafeInt 1), tags_id = None, path = ''likedBy''\<rparr>,
         \<lparr>rel_id = 2, parent_id = SafeInt 7, user_id = None, tags_id = Some (SafeInt 4), path = ''tags''\<rparr>,
         \<lparr>rel_id = 3, parent_id = SafeInt 7, user_id = Some (SafeInt 2), tags_id = None, path = ''likedBy''\<rparr>,
         \<lparr>rel_id = 4, parent_id = SafeInt 8, user_id = Some (SafeInt 5), tags_id = None, path = ''likedBy''\<rparr>],
      users =
        [\<lparr>uid = 1, full_name = Some ''An'', avatar_url = None, avatar = Some ''a.png'',
          email = ''an@x.org'', password = ''PW1''\<rparr>],
      posts_rels_seq = 5\<rparr>) =
   map public_columns (users
     \<lparr>posts = [\<lparr>post_id = 7, title = ''t''\<rparr>],
      posts_rels =
        [\<lparr>rel_id = 1, parent_id = SafeInt 7, user_id = Some (SafeInt 1), tags_id = None, path = ''likedBy''\<rparr>,
         \<lparr>rel_id = 2, parent_id = SafeInt 7, user_id = None, tags_id = Some (SafeInt 4), path = ''tags''\<rparr>,
         \<lparr>rel_id = 3, parent_id = SafeInt 7, user_id = Some (SafeInt 2), tags_id = None, path = ''likedBy''\<rparr>,
         \<lparr>rel_id = 4, parent_id = SafeInt 8, user_id = Some (SafeInt 5), tags_id = None, path = ''likedBy''\<rparr>],
      users =
        [\<lparr>uid = 1, full_name = Some ''An'', avatar_url = None, avatar = Some ''a.png'',
          email = ''other@y.org'', password = ''PW2''\<rparr>],
      posts_rels_seq = 5\<rparr>) \<and>
   users
     \<lparr>posts = [\<lparr>post_id = 7, title = ''t''\<rparr>],
      posts_rels =
        [\<lparr>rel_id = 1, parent_id = SafeInt 7, user_id = Some (SafeInt 1), tags_id = None, path = ''likedBy''\<rparr>,
         \<lparr>rel_id = 2, parent_id = SafeInt 7, user_id = None, tags_id = Some (SafeInt 4), path = ''tags''\<rparr>,
         \<lparr>rel_id = 3, parent_id = SafeInt 7, user_id = Some (SafeInt 2), tags_id = None, path = ''likedBy''\<rparr>,
         \<lparr>rel_id = 4, parent_id = SafeInt 8, user_id = Some (SafeInt 5), tags_id = None, path = ''likedBy''\<rparr>],
      users =
        [\<lparr>uid = 1, full_name = Some ''An'', avatar_url = None, avatar = Some ''a.png'',
          email = ''an@x.org'', password = ''PW1''\<rparr>],
      posts_rels_seq = 5\<rparr> \<noteq>
   users
     \<lparr>posts = [\<lparr>post_id = 7, title = ''t''\<rparr>],
      posts_rels =
        [\<lparr>rel_id = 1, parent_id = SafeInt 7, user_id = Some (SafeInt 1), tags_id = None, path = ''likedBy''\<rparr>,
         \<lparr>rel_id = 2, parent_id = SafeInt 7, user_id = None, tags_id = Some (SafeInt 4), path = ''tags''\<rparr>,
         \<lparr>rel_id = 3, parent_id = SafeInt 7, user_id = Some (SafeInt 2), tags_id = None, path = ''likedBy''\<rparr>,
         \<lparr>rel_id = 4, parent_id = SafeInt 8, user_id = Some (SafeInt 5), tags_id = None, path = ''likedBy''\<rparr>],
      users =
        [\<lparr>uid = 1, full_name = Some ''An'', avatar_url = None, avatar = Some ''a.png'',
          email = ''other@y.org'', password = ''PW2''\<rparr>],
      posts_rels_seq = 5\<rparr> \<and>
   getLikesByPostId (JNum 7)
     \<lparr>posts = [\<lparr>post_id = 7, title = ''t''\<rparr>],
      posts_rels =
        [\<lparr>rel_id = 1, parent_id = SafeInt 7, user_id = Some (SafeInt 1), tags_id = None, path = ''likedBy''\<rparr>,
         \<lparr>rel_id = 2, parent_id = SafeInt 7, user_id = None, tags_id = Some (SafeInt 4), path = ''tags''\<rparr>,
         \<lparr>rel_id = 3, parent_id = SafeInt 7, user_id = Some (SafeInt 2), tags_id = None, path = ''likedBy''\<rparr>,
         \<lparr>rel_id = 4, parent_id = SafeInt 8, user_id = Some (SafeInt 5), tags_id = None, path = ''likedBy''\<rparr>],
      users =
        [\<lparr>uid = 1, full_name = Some ''An'', avatar_url = None, avatar = Some ''a.png'',
          email = ''an@x.org'', password = ''PW1''\<rparr>],
      posts_rels_seq = 5\<rparr> =
   getLikesByPostId (JNum 7)
     \<lparr>posts = [\<lparr>post_id = 7, title = ''t''\<rparr>],
      posts_rels =
        [\<lparr>rel_id = 1, parent_id = SafeInt 7, user_id = Some (SafeInt 1), tags_id = None, path = ''likedBy''\<rparr>,
         \<lparr>rel_id = 2, parent_id = SafeInt 7, user_id = None, tags_id = Some (SafeInt 4), path = ''tags''\<rparr>,
         \<lparr>rel_id = 3, parent_id = SafeInt 7, user_id = Some (SafeInt 2), tags_id = None, path = ''likedBy''\<rparr>,
         \<lparr>rel_id = 4, parent_id = SafeInt 8, user_id = Some (SafeInt 5), tags_id = None, path = ''likedBy''\<rparr>],
      users =
        [\<lparr>uid = 1, full_name = Some ''An'', avatar_url = None, avatar = Some ''a.png'',
          email = ''other@y.org'', password = ''PW2''\<rparr>],
      posts_rels_seq = 5\<rparr>"
proof -
  let ?s = "\<lparr>posts = [\<lparr>post_id = 7, title = ''t''\<rparr>],
      posts_rels =
        [\<lparr>rel_id = 1, parent_id = SafeInt 7, user_id = Some (SafeInt 1), tags_id = None, path = ''likedBy''\<rparr>,
         \<lparr>rel_id = 2, parent_id = SafeInt 7, user_id = None, tags_id = Some (SafeInt 4), path = ''tags''\<rparr>,
         \<lparr>rel_id = 3, parent_id = SafeInt 7, user_id = Some (SafeInt 2), tags_id = None, path = ''likedBy''\<rparr>,
         \<lparr>rel_id = 4, parent_id = SafeInt 8, user_id = Some (SafeInt 5), tags_id = None, path = ''likedBy''\<rparr>],
      users =
        [\<lparr>uid = 1, full_name = Some ''An'', avatar_url = None, avatar = Some ''a.png'',
          email = ''an@x.org'', password = ''PW1''\<rparr>],
      posts_rels_seq = 5\<rparr>"
  let ?t = "\<lparr>posts = [\<lparr>post_id = 7, title = ''t''\<rparr>],
      posts_rels =
        [\<lparr>rel_id = 1, parent_id = SafeInt 7, user_id = Some (SafeInt 1), tags_id = None, path = ''likedBy''\<rparr>,
         \<lparr>rel_id = 2, parent_id = SafeInt 7, user_id = None, tags_id = Some (SafeInt 4), path = ''tags''\<rparr>,
         \<lparr>rel_id = 3, parent_id = SafeInt 7, user_id = Some (SafeInt 2), tags_id = None, path = ''likedBy''\<rparr>,
         \<lparr>rel_id = 4, parent_id = SafeInt 8, user_id = Some (SafeInt 5), tags_id = None, path = ''likedBy''\<rparr>],
      users =
        [\<lparr>uid = 1, full_name = Some ''An'', avatar_url = None, avatar = Some ''a.png'',
          email = ''other@y.org'', password = ''PW2''\<rparr>],
      posts_rels_seq = 5\<rparr>"
  have h1: "posts_rels ?s = posts_rels ?t" by simp
  have h2: "map public_columns (users ?s) = map public_columns (users ?t)"
    by (simp add: public_columns_def)
  have h3: "users ?s \<noteq> users ?t" by simp
  from getLikesByPostId_hides_private_columns [OF h1 h2, of "JNum 7"] h2 h3
  show ?thesis by blast
qed


section \<open>Ids given as strings\<close>

lemma likePost_Number:
  assumes "Number_js a = Number_js a'" and "Number_js b = Number_js b'"
  shows "likePost a b s = likePost a' b' s"
  by (simp only: likePost_def assms)

lemma isPostLikedByUser_Number:
  assumes "Number_js a = Number_js a'" and "Number_js b = Number_js b'"
  shows "isPostLikedByUser a b s = isPostLikedByUser a' b' s"
  by (simp only: isPostLikedByUser_def assms)

text \<open>
  Claim C10. \<open>likePost\<close> and \<open>isPostLikedByUser\<close> pass both ids through \<open>Number\<close> before
  they touch the store. For safe integers \<open>p\<close> and \<open>u\<close>, \<open>Number\<close> of the string form is the
  number itself, so the call with the string form of either id, or of both, returns the
  same result and leaves the same store as the call with the numbers.
\<close>

theorem numeric_strings_are_coerced:
  assumes "- (2 ^ 53) < p" and "p < 2 ^ 53" and "- (2 ^ 53) < u" and "u < 2 ^ 53"
  shows "Number_js (JStr (String_js p)) = SafeInt p \<and>
         Number_js (JStr (String_js u)) = SafeInt u \<and>
         likePost (JStr (String_js p)) (JStr (String_js u)) s = likePost (JNum p) (JNum u) s \<and>
         likePost (JStr (String_js p)) (JNum u) s = likePost (JNum p) (JNum u) s \<and>
         likePost (JNum p) (JStr (String_js u)) s = likePost (JNum p) (JNum u) s \<and>
         isPostLikedByUser (JStr (String_js p)) (JStr (String_js u)) s =
           isPostLikedByUser (JNum p) (JNum u) s \<and>
         isPostLikedByUser (JStr (String_js p)) (JNum u) s =
           isPostLikedByUser (JNum p) (JNum u) s \<and>
         isPostLikedByUser (JNum p) (JStr (String_js u)) s =
           isPostLikedByUser (JNum p) (JNum u) s"
proof -
  have p: "Number_js (JStr (String_js p)) = Number_js (JNum p)"
    and u: "Number_js (JStr (String_js u)) = Number_js (JNum u)"
    by (rule Number_js_String_js)+
  have "Number_js (JStr (String_js p)) = SafeInt p" "Number_js (JStr (String_js u)) = SafeInt u"
    using assms by (simp_all only: Number_js_digits)
  then show ?thesis
    by (simp only: likePost_Number [OF p u] likePost_Number [OF p refl]
        likePost_Number [OF refl u] isPostLikedByUser_Number [OF p u]
        isPostLikedByUser_Number [OF p refl] isPostLikedByUser_Number [OF refl u] simp_thms)
qed

theorem numeric_strings_are_coerced_witness:
  "- (2 ^ 53) < (7 :: int) \<and> (7 :: int) < 2 ^ 53 \<and> - (2 ^ 53) < (12 :: int) \<and>
   (12 :: int) < 2 ^ 53 \<and> String_js 7 = ''7'' \<and> String_js 12 = ''12'' \<and>
   likePost (JStr ''7'') (JStr ''12'')
     \<lparr>posts = [\<lparr>post_id = 7, title = ''t''\<rparr>], posts_rels = [], users = [],
      posts_rels_seq = 1\<rparr> =
   likePost (JNum 7) (JNum 12)
     \<lparr>posts = [\<lparr>post_id = 7, title = ''t''\<rparr>], posts_rels = [], users = [],
      posts_rels_seq = 1\<rparr> \<and>
   isPostLikedByUser (JStr ''7'') (JStr ''12'')
     \<lparr>posts = [\<lparr>post_id = 7, title = ''t''\<rparr>], posts_rels = [], users = [],
      posts_rels_seq = 1\<rparr> =
   isPostLikedByUser (JNum 7) (JNum 12)
     \<lparr>posts = [\<lparr>post_id = 7, title = ''t''\<rparr>], posts_rels = [], users = [],
      posts_rels_seq = 1\<rparr>"
proof -
  have a: "String_js 7 = ''7''" and b: "String_js 12 = ''12''" by code_simp+
  have h: "- (2 ^ 53) < (7 :: int)" "(7 :: int) < 2 ^ 53" "- (2 ^ 53) < (12 :: int)"
    "(12 :: int) < 2 ^ 53" by simp_all
  from numeric_strings_are_coerced [OF h] a b h show ?thesis by (simp del: Number_js.simps)
qed

section \<open>At most one edge of a kind per pair\<close>

lemma distinct_keys_iff:
  "distinct (map f (filter Q rows)) \<longleftrightarrow>
     (\<forall>k. length (filter (\<lambda>r. Q r \<and> f r = k) rows) \<le> 1)"
proof (induction rows)
  case Nil
  then show ?case by simp
next
  case (Cons a rows)
  show ?case
  proof (cases "Q a")
    case False
    with Cons show ?thesis by simp
  next
    case True
    have "f a \<notin> f ` {r \<in> set rows. Q r} \<longleftrightarrow>
            length (filter (\<lambda>r. Q r \<and> f r = f a) rows) = 0"
      by (force simp: filter_empty_conv image_iff)
    moreover have "(\<forall>k. length (filter (\<lambda>r. Q r \<and> f r = k) (a # rows)) \<le> 1) \<longleftrightarrow>
        length (filter (\<lambda>r. Q r \<and> f r = f a) rows) = 0 \<and>
        (\<forall>k. length (filter (\<lambda>r. Q r \<and> f r = k) rows) \<le> 1)"
      (is "?L \<longleftrightarrow> ?A \<and> ?B")
    proof
      assume l: ?L
      from l [rule_format, of "f a"] True have ?A by simp
      moreover have ?B
      proof
        fix k
        from l [rule_format, of k] show "length (filter (\<lambda>r. Q r \<and> f r = k) rows) \<le> 1"
          by (simp split: if_splits)
      qed
      ultimately show "?A \<and> ?B" ..
    next
      assume "?A \<and> ?B"
      then show ?L using True by auto
    qed
    ultimately show ?thesis using True Cons by simp
  qed
qed


lemma like_of_edge_of: "like_of p u = edge_of ''likedBy'' p u"
  by (auto simp: like_of_def edge_of_def fun_eq_iff)

lemma user_is_eq: "user_is u r \<Longrightarrow> user_id r = Some u"
  by (auto simp: user_is_def js_eq_def split: option.splits)

lemma length_filter_mono:
  assumes "\<And>x. P x \<Longrightarrow> Q x"
  shows "length (filter P xs) \<le> length (filter Q xs)"
  using assms by (induction xs) (auto simp: le_SucI)

lemma one_per_pair_count:
  assumes "one_per_pair kind rows"
  shows "length (filter (edge_of kind p u) rows) \<le> 1"
proof -
  let ?Q = "\<lambda>r. path r = kind \<and> user_id r \<noteq> None"
  let ?key = "\<lambda>r. (parent_id r, user_id r)"
  have "length (filter (edge_of kind p u) rows) \<le>
          length (filter (\<lambda>r. ?Q r \<and> ?key r = (p, Some u)) rows)"
    by (rule length_filter_mono) (auto simp: edge_of_def js_eq_def dest: user_is_eq)
  also from assms have "\<dots> \<le> 1"
    unfolding one_per_pair_def distinct_keys_iff by blast
  finally show ?thesis .
qed

lemma one_per_pair_filter:
  assumes "one_per_pair kind rows"
  shows "one_per_pair kind (filter R rows)"
proof -
  let ?Q = "\<lambda>r. path r = kind \<and> user_id r \<noteq> None"
  have "filter ?Q (filter R rows) = filter R (filter ?Q rows)"
    by (simp add: conj_commute)
  with assms show ?thesis
    by (simp add: one_per_pair_def distinct_map_filter del: filter_filter)
qed

lemma one_per_pair_snoc_edge:
  assumes "one_per_pair kind rows"
    and "\<forall>r\<in>set rows. \<not> (parent_id r = p \<and> user_id r = Some u \<and> path r = kind)"
  shows "one_per_pair kind
           (rows @ [\<lparr>rel_id = i, parent_id = p, user_id = Some u, tags_id = t, path = kind\<rparr>])"
  using assms by (auto simp: one_per_pair_def)

lemma one_per_pair_snoc_other:
  assumes "path r \<noteq> kind \<or> user_id r = None"
  shows "one_per_pair kind (rows @ [r]) = one_per_pair kind rows"
  using assms by (auto simp: one_per_pair_def)

lemma is_id_SafeInt: "is_id x \<Longrightarrow> \<exists>n. x = SafeInt n"
  by (cases x) simp_all

lemma one_per_pair_likePost:
  assumes "one_per_pair kind (posts_rels s)"
    and "is_id (Number_js a)" and "is_id (Number_js b)"
  shows "one_per_pair kind (posts_rels (snd (likePost a b s)))"
proof -
  from is_id_SafeInt [OF assms(2)] is_id_SafeInt [OF assms(3)]
  obtain p u where n: "Number_js a = SafeInt p" "Number_js b = SafeInt u" by blast
  from likePost_cases [of a b s] show ?thesis
  proof (elim disjE exE conjE)
    assume "snd (likePost a b s) = s"
    with assms(1) show ?thesis by simp
  next
    fix e
    assume "snd (likePost a b s) =
      s\<lparr>posts_rels := filter (\<lambda>r. rel_id r \<noteq> rel_id e) (posts_rels s)\<rparr>"
    with assms(1) show ?thesis by (simp add: one_per_pair_filter)
  next
    assume none: "posts_rels_findFirst (like_of (Number_js a) (Number_js b)) s = None"
      and new: "snd (likePost a b s) =
        posts_rels_create (Number_js a) (Some (Number_js b)) None ''likedBy'' s"
    show ?thesis
    proof (cases "kind = ''likedBy''")
      case True
      from none have "\<forall>r\<in>set (posts_rels s).
          \<not> (parent_id r = SafeInt p \<and> user_id r = Some (SafeInt u) \<and> path r = kind)"
        by (simp add: findFirst_None n like_of_SafeInt True)
      with assms(1) show ?thesis
        using one_per_pair_snoc_edge [of kind "posts_rels s" "SafeInt p" "SafeInt u"]
        by (simp add: new n posts_rels_create_def True)
    next
      case False
      with assms(1) show ?thesis
        by (simp add: new posts_rels_create_def one_per_pair_snoc_other)
    qed
  qed
qed

lemma initial_likePost:
  assumes "initial s" and "is_id (Number_js a)" and "is_id (Number_js b)"
  shows "initial (snd (likePost a b s))"
  using assms by (simp add: initial_def pk_ok_likePost one_per_pair_likePost)

lemma sequential_initial:
  assumes "sequential s"
  shows "initial s"
  using assms
proof (induction rule: sequential.induct)
  case (start s)
  then show ?case .
next
  case (like_post s postId userId)
  then show ?case by (simp add: initial_likePost)
next
  case (tag_created s parent tag)
  then show ?case
    by (simp add: initial_def create_tag_rel_def pk_ok_create)
       (simp add: posts_rels_create_def one_per_pair_snoc_other)
next
  case (tags_deleted s parent)
  then show ?case
    by (simp add: initial_def delete_tag_rels_def posts_rels_deleteMany_def pk_ok_filter
        one_per_pair_filter)
next
  case (other_tables s ps us)
  then show ?case by (simp add: initial_def pk_ok_def)
qed

subsection \<open>Uninterrupted steps are the whole call\<close>

lemma likePost_steps:
  "steps 4 (Called a b) s = (Settled (fst (likePost a b s)), snd (likePost a b s))"
proof (cases "posts_findUnique (Number_js a) s")
  case None
  then show ?thesis by (simp add: numeral_eq_Suc likePost_not_found)
next
  case (Some post)
  show ?thesis
  proof (cases "posts_rels_findFirst (like_of (Number_js a) (Number_js b)) s")
    case None
    with Some likePost_absent [OF Some None] show ?thesis
      by (simp add: numeral_eq_Suc)
  next
    case e: (Some e)
    from findFirst_Some [OF e] have "e \<in> set (posts_rels s)" by simp
    with Some e likePost_present [OF Some e] show ?thesis
      by (simp add: numeral_eq_Suc delete_found posts_rels_count_def)
  qed
qed

lemma reachable_steps:
  assumes "reachable s (cs @ [c])"
  shows "reachable (snd (steps n c s)) (cs @ [fst (steps n c s)])"
  using assms
proof (induction n arbitrary: c s)
  case 0
  then show ?case by simp
next
  case (Suc n)
  from reachable.stepped [OF Suc.prems, of "length cs"]
  have "reachable (snd (step c s)) (cs @ [fst (step c s)])" by simp
  from Suc.IH [OF this] show ?case by (simp add: case_prod_beta)
qed

lemma sequential_reachable:
  assumes "sequential s"
  shows "\<exists>cs. reachable s cs"
  using assms
proof (induction rule: sequential.induct)
  case (start s)
  then show ?case by (blast intro: reachable.start)
next
  case (like_post s postId userId)
  then obtain cs where "reachable s cs" by blast
  then have "reachable s (cs @ [Called postId userId])" by (rule reachable.called)
  from reachable_steps [OF this, of 4] show ?case by (auto simp: likePost_steps)
next
  case (tag_created s parent tag)
  then show ?case by (blast intro: reachable.tag_created)
next
  case (tags_deleted s parent)
  then show ?case by (blast intro: reachable.tags_deleted)
next
  case (other_tables s ps us)
  then show ?case by (blast intro: reachable.other_tables)
qed
subsection \<open>Two calls in flight together\<close>

text \<open>
  Two \<open>likePost\<close> calls for the same pair, the second made before the first has written:
  both find the post, both find no like row, both create one. The store ends with two
  like rows of the pair.
\<close>

lemma two_like_rows_reachable:
  "reachable
     \<lparr>posts = [\<lparr>post_id = 7, title = ''t''\<rparr>],
      posts_rels =
        [\<lparr>rel_id = 1, parent_id = SafeInt 7, user_id = Some (SafeInt 1), tags_id = None,
           path = ''likedBy''\<rparr>,
         \<lparr>rel_id = 2, parent_id = SafeInt 7, user_id = Some (SafeInt 1), tags_id = None,
           path = ''likedBy''\<rparr>],
      users = [], posts_rels_seq = 3\<rparr>
     [Settled (Inr \<lparr>liked = True, likeCount = 2, message = ''Post liked successfully''\<rparr>),
      Settled (Inr \<lparr>liked = True, likeCount = 2, message = ''Post liked successfully''\<rparr>)]"
proof -
  let ?s0 = "\<lparr>posts = [\<lparr>post_id = 7, title = ''t''\<rparr>], posts_rels = [], users = [],
              posts_rels_seq = 1\<rparr>"
  let ?row1 = "\<lparr>rel_id = 1, parent_id = SafeInt 7, user_id = Some (SafeInt 1), tags_id = None,
                 path = ''likedBy''\<rparr>"
  let ?row2 = "\<lparr>rel_id = 2, parent_id = SafeInt 7, user_id = Some (SafeInt 1), tags_id = None,
                 path = ''likedBy''\<rparr>"
  let ?s1 = "\<lparr>posts = [\<lparr>post_id = 7, title = ''t''\<rparr>], posts_rels = [?row1], users = [],
              posts_rels_seq = 2\<rparr>"
  let ?s2 = "\<lparr>posts = [\<lparr>post_id = 7, title = ''t''\<rparr>], posts_rels = [?row1, ?row2],
              users = [], posts_rels_seq = 3\<rparr>"
  let ?done = "Settled (Inr \<lparr>liked = True, likeCount = 2,
                              message = ''Post liked successfully''\<rparr>)"
  have num: "Number_js (JNum 7) = SafeInt 7" "Number_js (JNum 1) = SafeInt 1"
    by (rule Number_js_JNum; simp)+
  have "initial ?s0" by (simp add: initial_def pk_ok_def one_per_pair_def)
  then have "reachable ?s0 []" by (rule reachable.start)
  from reachable.called [OF this, of "JNum 7" "JNum 1"]
  have "reachable ?s0 [Called (JNum 7) (JNum 1)]" by simp
  from reachable.called [OF this, of "JNum 7" "JNum 1"]
  have "reachable ?s0 [Called (JNum 7) (JNum 1), Called (JNum 7) (JNum 1)]" by simp
  from reachable.stepped [OF this, of 0]
  have "reachable ?s0 [AwaitFindFirst (SafeInt 7) (SafeInt 1), Called (JNum 7) (JNum 1)]"
    by (simp add: num posts_findUnique_def del: Number_js.simps)
  from reachable.stepped [OF this, of 1]
  have "reachable ?s0 [AwaitFindFirst (SafeInt 7) (SafeInt 1),
                       AwaitFindFirst (SafeInt 7) (SafeInt 1)]"
    by (simp add: num posts_findUnique_def del: Number_js.simps)
  from reachable.stepped [OF this, of 0]
  have "reachable ?s0 [AwaitCreate (SafeInt 7) (SafeInt 1),
                       AwaitFindFirst (SafeInt 7) (SafeInt 1)]"
    by (simp add: posts_rels_findFirst_def)
  from reachable.stepped [OF this, of 1]
  have "reachable ?s0 [AwaitCreate (SafeInt 7) (SafeInt 1), AwaitCreate (SafeInt 7) (SafeInt 1)]"
    by (simp add: posts_rels_findFirst_def)
  from reachable.stepped [OF this, of 0]
  have "reachable ?s1 [AwaitCount (SafeInt 7) True, AwaitCreate (SafeInt 7) (SafeInt 1)]"
    by (simp add: posts_rels_create_def)
  from reachable.stepped [OF this, of 1]
  have "reachable ?s2 [AwaitCount (SafeInt 7) True, AwaitCount (SafeInt 7) True]"
    by (simp add: posts_rels_create_def)
  from reachable.stepped [OF this, of 0]
  have "reachable ?s2 [?done, AwaitCount (SafeInt 7) True]"
    by (simp add: posts_rels_count_def likes_on_def eval_nat_numeral)
  from reachable.stepped [OF this, of 1]
  show ?thesis
    by (simp add: posts_rels_count_def likes_on_def eval_nat_numeral)
qed

text \<open>
  Claim C2, as amended. In every store reached by running the operations one at a time
  from a store that satisfies the invariant, each (parent, user) pair has at most one
  like edge and at most one dislike edge, and the same holds again after a \<open>likePost\<close>
  call with ids. As the claim states it, for every store the program reaches, it fails:
  with two calls in flight together the store ends with two like rows of one pair.
\<close>

theorem one_edge_per_pair_sequential:
  assumes "sequential s"
  shows "posts_rels_count (edge_of ''likedBy'' p u) s \<le> 1 \<and>
         posts_rels_count (edge_of ''dislikedBy'' p u) s \<le> 1 \<and>
         (is_id (Number_js postId) \<and> is_id (Number_js userId) \<longrightarrow>
            posts_rels_count (edge_of ''likedBy'' p u) (snd (likePost postId userId s)) \<le> 1 \<and>
            posts_rels_count (edge_of ''dislikedBy'' p u) (snd (likePost postId userId s)) \<le> 1)"
proof -
  from assms have now: "initial s" by (rule sequential_initial)
  have later: "initial (snd (likePost postId userId s))"
    if "is_id (Number_js postId)" and "is_id (Number_js userId)"
    using now that by (rule initial_likePost)
  have cnt: "posts_rels_count (edge_of kind p u) t \<le> 1"
    if "initial t" and "kind = ''likedBy'' \<or> kind = ''dislikedBy''" for kind t
    using that one_per_pair_count [of kind "posts_rels t" p u]
    by (auto simp: initial_def posts_rels_count_def)
  from now have a: "posts_rels_count (edge_of ''likedBy'' p u) s \<le> 1"
    and b: "posts_rels_count (edge_of ''dislikedBy'' p u) s \<le> 1"
    by (rule cnt; simp)+
  have c: "posts_rels_count (edge_of ''likedBy'' p u) (snd (likePost postId userId s)) \<le> 1"
    and d: "posts_rels_count (edge_of ''dislikedBy'' p u) (snd (likePost postId userId s)) \<le> 1"
    if "is_id (Number_js postId)" and "is_id (Number_js userId)"
    using later [OF that] by (rule cnt; simp)+
  from a b c d show ?thesis by blast
qed

theorem one_edge_per_pair_sequential_witness:
  "sequential
     \<lparr>posts = [\<lparr>post_id = 7, title = ''t''\<rparr>],
      posts_rels = [\<lparr>rel_id = 1, parent_id = SafeInt 7, user_id = Some (SafeInt 1),
                     tags_id = None, path = ''likedBy''\<rparr>],
      users = [], posts_rels_seq = 2\<rparr> \<and>
   is_id (Number_js (JNum 7)) \<and> is_id (Number_js (JNum 2)) \<and>
   posts_rels_count (edge_of ''likedBy'' (SafeInt 7) (SafeInt 1))
     \<lparr>posts = [\<lparr>post_id = 7, title = ''t''\<rparr>],
      posts_rels = [\<lparr>rel_id = 1, parent_id = SafeInt 7, user_id = Some (SafeInt 1),
                     tags_id = None, path = ''likedBy''\<rparr>],
      users = [], posts_rels_seq = 2\<rparr> = 1 \<and>
   posts_rels_count (edge_of ''likedBy'' (SafeInt 7) (SafeInt 1))
     (snd (likePost (JNum 7) (JNum 2)
        \<lparr>posts = [\<lparr>post_id = 7, title = ''t''\<rparr>],
         posts_rels = [\<lparr>rel_id = 1, parent_id = SafeInt 7, user_id = Some (SafeInt 1),
                        tags_id = None, path = ''likedBy''\<rparr>],
         users = [], posts_rels_seq = 2\<rparr>)) \<le> 1"
proof -
  let ?s0 = "\<lparr>posts = [\<lparr>post_id = 7, title = ''t''\<rparr>], posts_rels = [], users = [],
              posts_rels_seq = 1\<rparr>"
  let ?s1 = "\<lparr>posts = [\<lparr>post_id = 7, title = ''t''\<rparr>],
      posts_rels = [\<lparr>rel_id = 1, parent_id = SafeInt 7, user_id = Some (SafeInt 1),
                     tags_id = None, path = ''likedBy''\<rparr>],
      users = [], posts_rels_seq = 2\<rparr>"
  have num: "Number_js (JNum 7) = SafeInt 7" "Number_js (JNum 1) = SafeInt 1"
    "Number_js (JNum 2) = SafeInt 2"
    by (rule Number_js_JNum; simp)+
  have "initial ?s0" by (simp add: initial_def pk_ok_def one_per_pair_def)
  then have "sequential ?s0" by (rule sequential.start)
  then have "sequential (snd (likePost (JNum 7) (JNum 1) ?s0))"
    by (rule sequential.like_post) (simp_all add: num del: Number_js.simps)
  moreover have "snd (likePost (JNum 7) (JNum 1) ?s0) = ?s1"
    by (simp add: likePost_def Let_def num posts_findUnique_def posts_rels_findFirst_def
        posts_rels_create_def del: Number_js.simps)
  ultimately have r: "sequential ?s1" by simp
  have ids: "is_id (Number_js (JNum 7))" "is_id (Number_js (JNum 2))"
    by (simp_all add: num del: Number_js.simps)
  have "posts_rels_count (edge_of ''likedBy'' (SafeInt 7) (SafeInt 1)) ?s1 = 1"
    by (simp add: posts_rels_count_def edge_of_def user_is_def)
  with r ids one_edge_per_pair_sequential [OF r, of "SafeInt 7" "SafeInt 1" "JNum 7" "JNum 2"]
  show ?thesis by (simp del: Number_js.simps)
qed

theorem race_breaks_one_edge_per_pair:
  "reachable
     \<lparr>posts = [\<lparr>post_id = 7, title = ''t''\<rparr>],
      posts_rels =
        [\<lparr>rel_id = 1, parent_id = SafeInt 7, user_id = Some (SafeInt 1), tags_id = None,
           path = ''likedBy''\<rparr>,
         \<lparr>rel_id = 2, parent_id = SafeInt 7, user_id = Some (SafeInt 1), tags_id = None,
           path = ''likedBy''\<rparr>],
      users = [], posts_rels_seq = 3\<rparr>
     [Settled (Inr \<lparr>liked = True, likeCount = 2, message = ''Post liked successfully''\<rparr>),
      Settled (Inr \<lparr>liked = True, likeCount = 2, message = ''Post liked successfully''\<rparr>)] \<and>
   posts_rels_count (edge_of ''likedBy'' (SafeInt 7) (SafeInt 1))
     \<lparr>posts = [\<lparr>post_id = 7, title = ''t''\<rparr>],
      posts_rels =
        [\<lparr>rel_id = 1, parent_id = SafeInt 7, user_id = Some (SafeInt 1), tags_id = None,
           path = ''likedBy''\<rparr>,
         \<lparr>rel_id = 2, parent_id = SafeInt 7, user_id = Some (SafeInt 1), tags_id = None,
           path = ''likedBy''\<rparr>],
      users = [], posts_rels_seq = 3\<rparr> = 2"
  using two_like_rows_reachable
  by (simp add: posts_rels_count_def edge_of_def user_is_def)

section \<open>The effect of a like on the rows of each pair\<close>

lemmas store_eval =
  likePost_def posts_findUnique_def posts_rels_findFirst_def posts_rels_delete_def
  posts_rels_create_def posts_rels_count_def like_of_def likes_on_def user_is_def js_eq_def

lemma count_create:
  "posts_rels_count wh (posts_rels_create p usr tag pth s) =
     posts_rels_count wh s +
       (if wh \<lparr>rel_id = posts_rels_seq s, parent_id = p, user_id = usr, tags_id = tag,
               path = pth\<rparr> then 1 else 0)"
  by (simp add: posts_rels_count_def posts_rels_create_def)

lemma count_delete:
  assumes "pk_ok s" and "e \<in> set (posts_rels s)"
  shows "posts_rels_count wh
           (s\<lparr>posts_rels := filter (\<lambda>r. rel_id r \<noteq> rel_id e) (posts_rels s)\<rparr>) +
         (if wh e then 1 else 0) = posts_rels_count wh s"
  using length_filter_remove1 [OF assms(2), of wh] assms
  by (simp add: posts_rels_count_def pk_ok_def filter_other_ids)

lemma count_pos_iff:
  "0 < posts_rels_count wh s \<longleftrightarrow> (\<exists>e\<in>set (posts_rels s). wh e)"
  by (auto simp: posts_rels_count_def filter_empty_conv)

lemma findFirst_count: "posts_rels_findFirst wh s = None \<longleftrightarrow> posts_rels_count wh s = 0"
  using count_pos_iff [of wh s] by (auto simp: findFirst_None)

lemma like_of_new:
  "like_of (SafeInt p') (SafeInt u')
     \<lparr>rel_id = i, parent_id = SafeInt p, user_id = Some (SafeInt u), tags_id = t,
      path = ''likedBy''\<rparr> \<longleftrightarrow> p' = p \<and> u' = u"
  by (auto simp: like_of_SafeInt)

lemma likePost_Inl: "fst (likePost a b s) = Inl err \<Longrightarrow> snd (likePost a b s) = s"
proof (cases "posts_findUnique (Number_js a) s")
  case None
  then show ?thesis by (simp add: likePost_not_found)
next
  case (Some post)
  assume err: "fst (likePost a b s) = Inl err"
  show ?thesis
  proof (cases "posts_rels_findFirst (like_of (Number_js a) (Number_js b)) s")
    case None
    with likePost_absent [OF Some None] err show ?thesis by simp
  next
    case e: (Some e)
    with likePost_present [OF Some e] err show ?thesis by simp
  qed
qed

text \<open>What a successful call does to the number of rows matching any condition.\<close>

lemma likePost_effect:
  assumes "pk_ok s" and "Number_js a = SafeInt p" and "Number_js b = SafeInt u"
    and "likePost a b s = (Inr r, s')"
  shows "if liked r
         then posts_rels_count (like_of (SafeInt p) (SafeInt u)) s = 0 \<and>
              (\<forall>wh. posts_rels_count wh s' =
                 posts_rels_count wh s +
                   (if wh \<lparr>rel_id = posts_rels_seq s, parent_id = SafeInt p,
                           user_id = Some (SafeInt u), tags_id = None,
                           path = ''likedBy''\<rparr> then 1 else 0))
         else (\<exists>e. like_of (SafeInt p) (SafeInt u) e \<and>
                 (\<forall>wh. posts_rels_count wh s' + (if wh e then 1 else 0) =
                    posts_rels_count wh s))"
proof -
  from assms(4) obtain post where post: "posts_findUnique (Number_js a) s = Some post"
    by (rule likePost_Inr)
  show ?thesis
  proof (cases "posts_rels_findFirst (like_of (Number_js a) (Number_js b)) s")
    case None
    from likePost_absent [OF post None] assms(4)
    have "liked r" and "s' = posts_rels_create (SafeInt p) (Some (SafeInt u)) None ''likedBy'' s"
      by (auto simp: assms(2,3))
    with None show ?thesis by (simp add: count_create findFirst_count assms(2,3))
  next
    case (Some e)
    from likePost_present [OF post Some] assms(4)
    have r: "\<not> liked r"
      and s': "s' = s\<lparr>posts_rels := filter (\<lambda>r. rel_id r \<noteq> rel_id e) (posts_rels s)\<rparr>"
      by auto
    from findFirst_Some [OF Some] have e: "e \<in> set (posts_rels s)"
      "like_of (SafeInt p) (SafeInt u) e" by (simp_all add: assms(2,3))
    have "\<forall>wh. posts_rels_count wh s' + (if wh e then 1 else 0) = posts_rels_count wh s"
      using count_delete [OF assms(1) e(1)] by (simp add: s')
    with e(2) have "\<exists>e. like_of (SafeInt p) (SafeInt u) e \<and>
        (\<forall>wh. posts_rels_count wh s' + (if wh e then 1 else 0) = posts_rels_count wh s)"
      by blast
    with r show ?thesis by (simp only: if_False)
  qed
qed

lemma liked_after:
  assumes "pk_ok s" and "posts_rels_count (like_of (SafeInt p) (SafeInt u)) s \<le> 1"
    and "Number_js a = SafeInt p" and "Number_js b = SafeInt u"
    and "likePost a b s = (Inr r, s')"
  shows "0 < posts_rels_count (like_of (SafeInt p) (SafeInt u)) s' \<longleftrightarrow> liked r"
    and "posts_rels_count (like_of (SafeInt p) (SafeInt u)) s' \<le> 1"
proof -
  have "(0 < posts_rels_count (like_of (SafeInt p) (SafeInt u)) s' \<longleftrightarrow> liked r) \<and>
        posts_rels_count (like_of (SafeInt p) (SafeInt u)) s' \<le> 1"
  proof (cases "liked r")
    case True
    with likePost_effect [OF assms(1,3,4,5)] show ?thesis by (simp add: like_of_new)
  next
    case False
    with likePost_effect [OF assms(1,3,4,5)] obtain e where e: "like_of (SafeInt p) (SafeInt u) e"
      "\<forall>wh. posts_rels_count wh s' + (if wh e then 1 else 0) = posts_rels_count wh s"
      by auto
    from e(2) [rule_format, of "like_of (SafeInt p) (SafeInt u)"] e(1)
    have "posts_rels_count (like_of (SafeInt p) (SafeInt u)) s' + 1 =
        posts_rels_count (like_of (SafeInt p) (SafeInt u)) s" by simp
    with assms(2) False show ?thesis by simp
  qed
  then show "0 < posts_rels_count (like_of (SafeInt p) (SafeInt u)) s' \<longleftrightarrow> liked r"
    and "posts_rels_count (like_of (SafeInt p) (SafeInt u)) s' \<le> 1" by simp_all
qed

lemma other_pair_unchanged:
  assumes "pk_ok s" and "is_id (Number_js a)" and "is_id (Number_js b)"
    and "\<not> (Number_js a = SafeInt p \<and> Number_js b = SafeInt u)"
  shows "posts_rels_count (like_of (SafeInt p) (SafeInt u)) (snd (likePost a b s)) =
           posts_rels_count (like_of (SafeInt p) (SafeInt u)) s"
proof (cases "fst (likePost a b s)")
  case (Inl err)
  then show ?thesis by (simp add: likePost_Inl)
next
  case (Inr r)
  then have run: "likePost a b s = (Inr r, snd (likePost a b s))" by (simp add: prod_eq_iff)
  from is_id_SafeInt [OF assms(2)] is_id_SafeInt [OF assms(3)]
  obtain p' u' where n: "Number_js a = SafeInt p'" "Number_js b = SafeInt u'" by blast
  with assms(4) have ne: "\<not> (p = p' \<and> u = u')" by auto
  show ?thesis
  proof (cases "liked r")
    case True
    with likePost_effect [OF assms(1) n run] ne show ?thesis by (auto simp: like_of_new)
  next
    case False
    with likePost_effect [OF assms(1) n run] obtain e where e: "like_of (SafeInt p') (SafeInt u') e"
      "\<forall>wh. posts_rels_count wh (snd (likePost a b s)) + (if wh e then 1 else 0) =
            posts_rels_count wh s"
      by auto
    from e(1) ne have "\<not> like_of (SafeInt p) (SafeInt u) e" by (auto simp: like_of_SafeInt)
    with e(2) [rule_format, of "like_of (SafeInt p) (SafeInt u)"] show ?thesis by simp
  qed
qed

lemma pair_count_likePost:
  assumes "pk_ok s" and "posts_rels_count (like_of (SafeInt p) (SafeInt u)) s \<le> 1"
    and "is_id (Number_js a)" and "is_id (Number_js b)"
  shows "posts_rels_count (like_of (SafeInt p) (SafeInt u)) (snd (likePost a b s)) \<le> 1"
proof (cases "Number_js a = SafeInt p \<and> Number_js b = SafeInt u")
  case False
  with other_pair_unchanged [OF assms(1,3,4) False] assms(2) show ?thesis by simp
next
  case True
  show ?thesis
  proof (cases "fst (likePost a b s)")
    case (Inl err)
    with assms(2) show ?thesis by (simp add: likePost_Inl)
  next
    case (Inr r)
    then have run: "likePost a b s = (Inr r, snd (likePost a b s))" by (simp add: prod_eq_iff)
    from liked_after(2) [OF assms(1,2) True [THEN conjunct1] True [THEN conjunct2] run]
    show ?thesis .
  qed
qed

lemma run_likes_last_effect:
  assumes "pk_ok s" and "posts_rels_count (like_of (SafeInt p) (SafeInt u)) s \<le> 1"
    and "list_all (\<lambda>(x, y). is_id (Number_js x) \<and> is_id (Number_js y)) cs"
  shows "0 < posts_rels_count (like_of (SafeInt p) (SafeInt u)) (run_likes cs s) \<longleftrightarrow>
           (case last_effect p u cs s of
              Some created \<Rightarrow> created
            | None \<Rightarrow> 0 < posts_rels_count (like_of (SafeInt p) (SafeInt u)) s)"
  using assms
proof (induction cs arbitrary: s)
  case Nil
  then show ?case by simp
next
  case (Cons c cs)
  obtain a b where c: "c = (a, b)" by (cases c)
  let ?s1 = "snd (likePost a b s)"
  from Cons.prems(3) have ids: "is_id (Number_js a)" "is_id (Number_js b)"
    and rest: "list_all (\<lambda>(x, y). is_id (Number_js x) \<and> is_id (Number_js y)) cs"
    by (simp_all add: c)
  have inv1: "pk_ok ?s1" "posts_rels_count (like_of (SafeInt p) (SafeInt u)) ?s1 \<le> 1"
    using pk_ok_likePost [OF Cons.prems(1)] pair_count_likePost [OF Cons.prems(1,2) ids]
    by blast+
  note IH = Cons.IH [OF inv1 rest]
  show ?case
  proof (cases "last_effect p u cs ?s1")
    case (Some created)
    with IH show ?thesis by (simp add: c)
  next
    case None
    show ?thesis
    proof (cases "Number_js a = SafeInt p \<and> Number_js b = SafeInt u")
      case False
      with other_pair_unchanged [OF Cons.prems(1) ids False] IH None show ?thesis
        by (auto simp: c)
    next
      case True
      show ?thesis
      proof (cases "fst (likePost a b s)")
        case (Inl err)
        with likePost_Inl [OF Inl] IH None True show ?thesis by (simp add: c)
      next
        case (Inr r)
        then have run: "likePost a b s = (Inr r, ?s1)" by (simp add: prod_eq_iff)
        from liked_after(1) [OF Cons.prems(1,2) True [THEN conjunct1] True [THEN conjunct2] run]
          IH None True Inr
        show ?thesis by (simp add: c)
      qed
    qed
  qed
qed

lemma isPostLikedByUser_count:
  assumes "Number_js a = SafeInt p" and "Number_js b = SafeInt u"
  shows "isPostLikedByUser a b s \<longleftrightarrow> 0 < posts_rels_count (like_of (SafeInt p) (SafeInt u)) s"
  using assms findFirst_count [of "like_of (SafeInt p) (SafeInt u)" s]
  by (auto simp: isPostLikedByUser_def)

text \<open>
  Claim C5, as amended. \<open>isPostLikedByUser\<close> answers \<open>true\<close> exactly when the store holds a
  like row of the pair. After any sequence of \<open>likePost\<close> calls with ids, run one after
  another on a store that has at most one like row of the pair, that is the case
  exactly when the last call that changed the pair created its row (a later toggle-off
  would be the last change), or, when no call changed the pair, when the row was there
  at the start. As the claim states it, with no condition on the store, the second part
  fails on a store with two like rows of the pair: after a toggle-off the pair is still
  liked.
\<close>

theorem isPostLikedByUser_iff_like_edge:
  assumes "Number_js a = SafeInt p" and "Number_js b = SafeInt u"
  shows "(isPostLikedByUser a b s \<longleftrightarrow>
            (\<exists>e\<in>set (posts_rels s).
               parent_id e = SafeInt p \<and> user_id e = Some (SafeInt u) \<and> path e = ''likedBy'')) \<and>
         (pk_ok s \<and> posts_rels_count (like_of (SafeInt p) (SafeInt u)) s \<le> 1 \<and>
          list_all (\<lambda>(x, y). is_id (Number_js x) \<and> is_id (Number_js y)) cs \<longrightarrow>
            (isPostLikedByUser a b (run_likes cs s) \<longleftrightarrow>
               (case last_effect p u cs s of
                  Some created \<Rightarrow> created
                | None \<Rightarrow> (\<exists>e\<in>set (posts_rels s).
                    parent_id e = SafeInt p \<and> user_id e = Some (SafeInt u) \<and>
                    path e = ''likedBy''))))"
proof -
  have edge: "0 < posts_rels_count (like_of (SafeInt p) (SafeInt u)) t \<longleftrightarrow>
      (\<exists>e\<in>set (posts_rels t).
         parent_id e = SafeInt p \<and> user_id e = Some (SafeInt u) \<and> path e = ''likedBy'')"
    for t
    by (simp add: count_pos_iff like_of_SafeInt)
  have now: "isPostLikedByUser a b s \<longleftrightarrow>
      (\<exists>e\<in>set (posts_rels s).
         parent_id e = SafeInt p \<and> user_id e = Some (SafeInt u) \<and> path e = ''likedBy'')"
    using isPostLikedByUser_count [OF assms, of s] by (simp add: edge)
  have later: "isPostLikedByUser a b (run_likes cs s) \<longleftrightarrow>
      (case last_effect p u cs s of
         Some created \<Rightarrow> created
       | None \<Rightarrow> (\<exists>e\<in>set (posts_rels s).
           parent_id e = SafeInt p \<and> user_id e = Some (SafeInt u) \<and> path e = ''likedBy''))"
    if "pk_ok s" and "posts_rels_count (like_of (SafeInt p) (SafeInt u)) s \<le> 1"
      and "list_all (\<lambda>(x, y). is_id (Number_js x) \<and> is_id (Number_js y)) cs"
    using isPostLikedByUser_count [OF assms, of "run_likes cs s"]
      run_likes_last_effect [OF that]
    by (simp add: edge [symmetric] split: option.splits)
  from now later show ?thesis by blast
qed

theorem isPostLikedByUser_iff_like_edge_witness:
  "Number_js (JNum 7) = SafeInt 7 \<and> Number_js (JStr ''1'') = SafeInt 1 \<and>
   pk_ok \<lparr>posts = [\<lparr>post_id = 7, title = ''t''\<rparr>], posts_rels = [], users = [],
          posts_rels_seq = 1\<rparr> \<and>
   posts_rels_count (like_of (SafeInt 7) (SafeInt 1))
     \<lparr>posts = [\<lparr>post_id = 7, title = ''t''\<rparr>], posts_rels = [], users = [],
      posts_rels_seq = 1\<rparr> \<le> 1 \<and>
   list_all (\<lambda>(x, y). is_id (Number_js x) \<and> is_id (Number_js y))
     [(JNum 7, JNum 1), (JNum 7, JNum 2), (JStr ''7'', JNum 1), (JNum 7, JNum 1)] \<and>
   last_effect 7 1 [(JNum 7, JNum 1), (JNum 7, JNum 2), (JStr ''7'', JNum 1), (JNum 7, JNum 1)]
     \<lparr>posts = [\<lparr>post_id = 7, title = ''t''\<rparr>], posts_rels = [], users = [],
      posts_rels_seq = 1\<rparr> = Some True \<and>
   isPostLikedByUser (JNum 7) (JStr ''1'')
     (run_likes [(JNum 7, JNum 1), (JNum 7, JNum 2), (JStr ''7'', JNum 1), (JNum 7, JNum 1)]
        \<lparr>posts = [\<lparr>post_id = 7, title = ''t''\<rparr>], posts_rels = [], users = [],
         posts_rels_seq = 1\<rparr>)"
proof -
  let ?s = "\<lparr>posts = [\<lparr>post_id = 7, title = ''t''\<rparr>], posts_rels = [], users = [],
             posts_rels_seq = 1\<rparr>"
  let ?cs = "[(JNum 7, JNum 1), (JNum 7, JNum 2), (JStr ''7'', JNum 1), (JNum 7, JNum 1)]"
  have n7: "Number_js (JNum 7) = SafeInt 7" by (rule Number_js_JNum) simp_all
  have n1: "Number_js (JNum 1) = SafeInt 1" by (rule Number_js_JNum) simp_all
  have n2: "Number_js (JNum 2) = SafeInt 2" by (rule Number_js_JNum) simp_all
  have "String_js 1 = ''1''" and "String_js 7 = ''7''" by code_simp+
  with Number_js_digits [of 1] Number_js_digits [of 7]
  have s1: "Number_js (JStr ''1'') = SafeInt 1" and s7: "Number_js (JStr ''7'') = SafeInt 7"
    by simp_all
  note num = n7 n1 n2 s1 s7
  have h3: "pk_ok ?s" by (simp add: pk_ok_def)
  have h4: "posts_rels_count (like_of (SafeInt 7) (SafeInt 1)) ?s \<le> 1"
    by (simp add: posts_rels_count_def)
  have h5: "list_all (\<lambda>(x, y). is_id (Number_js x) \<and> is_id (Number_js y)) ?cs"
    by (simp add: num del: Number_js.simps)
  let ?row1 = "\<lparr>rel_id = 1, parent_id = SafeInt 7, user_id = Some (SafeInt 1), tags_id = None,
                 path = ''likedBy''\<rparr>"
  let ?row2 = "\<lparr>rel_id = 2, parent_id = SafeInt 7, user_id = Some (SafeInt 2), tags_id = None,
                 path = ''likedBy''\<rparr>"
  let ?row3 = "\<lparr>rel_id = 3, parent_id = SafeInt 7, user_id = Some (SafeInt 1), tags_id = None,
                 path = ''likedBy''\<rparr>"
  let ?s1 = "?s\<lparr>posts_rels := [?row1], posts_rels_seq := 2\<rparr>"
  let ?s2 = "?s\<lparr>posts_rels := [?row1, ?row2], posts_rels_seq := 3\<rparr>"
  let ?s3 = "?s\<lparr>posts_rels := [?row2], posts_rels_seq := 3\<rparr>"
  let ?s4 = "?s\<lparr>posts_rels := [?row2, ?row3], posts_rels_seq := 4\<rparr>"
  have c1: "likePost (JNum 7) (JNum 1) ?s =
      (Inr \<lparr>liked = True, likeCount = 1, message = ''Post liked successfully''\<rparr>, ?s1)"
    by (simp add: num store_eval Let_def del: Number_js.simps)
  have c2: "likePost (JNum 7) (JNum 2) ?s1 =
      (Inr \<lparr>liked = True, likeCount = 2, message = ''Post liked successfully''\<rparr>, ?s2)"
    by (simp add: num store_eval Let_def eval_nat_numeral del: Number_js.simps)
  have c3: "likePost (JStr ''7'') (JNum 1) ?s2 =
      (Inr \<lparr>liked = False, likeCount = 1, message = ''Post unliked successfully''\<rparr>, ?s3)"
    by (simp add: num store_eval Let_def del: Number_js.simps)
  have c4: "likePost (JNum 7) (JNum 1) ?s3 =
      (Inr \<lparr>liked = True, likeCount = 2, message = ''Post liked successfully''\<rparr>, ?s4)"
    by (simp add: num store_eval Let_def eval_nat_numeral del: Number_js.simps)
  have e: "last_effect 7 1 ?cs ?s = Some True"
    using c1 c2 c3 c4 by (simp add: num del: Number_js.simps)
  from isPostLikedByUser_iff_like_edge [OF n7 s1, of ?s ?cs] n7 s1 h3 h4 h5 e
  show ?thesis by simp
qed

text \<open>
  On the store with two like rows of the pair (7, 1), which two calls in flight together
  reach, one more \<open>likePost\<close> call of user 1 on post 7 deletes one of the rows: the last
  effect on the pair is a toggle-off, and the pair is still liked.
\<close>

theorem toggle_off_leaves_pair_liked:
  "reachable
     \<lparr>posts = [\<lparr>post_id = 7, title = ''t''\<rparr>],
      posts_rels =
        [\<lparr>rel_id = 1, parent_id = SafeInt 7, user_id = Some (SafeInt 1), tags_id = None,
           path = ''likedBy''\<rparr>,
         \<lparr>rel_id = 2, parent_id = SafeInt 7, user_id = Some (SafeInt 1), tags_id = None,
           path = ''likedBy''\<rparr>],
      users = [], posts_rels_seq = 3\<rparr>
     [Settled (Inr \<lparr>liked = True, likeCount = 2, message = ''Post liked successfully''\<rparr>),
      Settled (Inr \<lparr>liked = True, likeCount = 2, message = ''Post liked successfully''\<rparr>)] \<and>
   Number_js (JNum 7) = SafeInt 7 \<and> Number_js (JNum 1) = SafeInt 1 \<and>
   last_effect 7 1 [(JNum 7, JNum 1)]
     \<lparr>posts = [\<lparr>post_id = 7, title = ''t''\<rparr>],
      posts_rels =
        [\<lparr>rel_id = 1, parent_id = SafeInt 7, user_id = Some (SafeInt 1), tags_id = None,
           path = ''likedBy''\<rparr>,
         \<lparr>rel_id = 2, parent_id = SafeInt 7, user_id = Some (SafeInt 1), tags_id = None,
           path = ''likedBy''\<rparr>],
      users = [], posts_rels_seq = 3\<rparr> = Some False \<and>
   isPostLikedByUser (JNum 7) (JNum 1)
     (run_likes [(JNum 7, JNum 1)]
        \<lparr>posts = [\<lparr>post_id = 7, title = ''t''\<rparr>],
         posts_rels =
           [\<lparr>rel_id = 1, parent_id = SafeInt 7, user_id = Some (SafeInt 1), tags_id = None,
              path = ''likedBy''\<rparr>,
            \<lparr>rel_id = 2, parent_id = SafeInt 7, user_id = Some (SafeInt 1), tags_id = None,
              path = ''likedBy''\<rparr>],
         users = [], posts_rels_seq = 3\<rparr>)"
proof -
  have num: "Number_js (JNum 7) = SafeInt 7" "Number_js (JNum 1) = SafeInt 1"
    by (rule Number_js_JNum; simp)+
  show ?thesis
    using two_like_rows_reachable
    by (simp add: num store_eval isPostLikedByUser_def Let_def del: Number_js.simps)
qed

section \<open>Liking twice\<close>

lemma likePost_succeeds:
  assumes "posts_findUnique (Number_js a) s \<noteq> None"
  obtains r s' where "likePost a b s = (Inr r, s')"
    and "likeCount r = posts_rels_count (likes_on (Number_js a)) s'" and "posts s' = posts s"
proof -
  from assms obtain post where post: "posts_findUnique (Number_js a) s = Some post" by auto
  show ?thesis
  proof (cases "posts_rels_findFirst (like_of (Number_js a) (Number_js b)) s")
    case None
    from likePost_absent [OF post None] that show ?thesis
      by (simp add: posts_rels_create_def)
  next
    case (Some e)
    from likePost_present [OF post Some] that show ?thesis
      by (simp add: posts_rels_count_def)
  qed
qed

lemma like_of_same:
  "like_of (SafeInt p) (SafeInt u) e \<Longrightarrow> like_of p' u' e \<longleftrightarrow> p' = SafeInt p \<and> u' = SafeInt u"
  by (auto simp: like_of_def user_is_def js_eq_def split: option.splits)

lemma likes_on_same: "like_of (SafeInt p) (SafeInt u) e \<Longrightarrow> likes_on p' e \<longleftrightarrow> p' = SafeInt p"
  by (auto simp: like_of_def likes_on_def js_eq_def)

lemma find_snoc:
  "find P (xs @ [x]) =
     (case find P xs of Some y \<Rightarrow> Some y | None \<Rightarrow> if P x then Some x else None)"
  by (induction xs) auto

lemma create_then_delete:
  assumes "pk_ok s"
  shows "filter (\<lambda>r. rel_id r \<noteq> posts_rels_seq s)
           (posts_rels (posts_rels_create p usr tag pth s)) = posts_rels s"
proof -
  from assms have "\<forall>r\<in>set (posts_rels s). rel_id r \<noteq> posts_rels_seq s"
    by (auto simp: pk_ok_def list_all_iff)
  then have "filter (\<lambda>r. rel_id r \<noteq> posts_rels_seq s) (posts_rels s) = posts_rels s"
    by (simp add: filter_id_conv)
  then show ?thesis by (simp add: posts_rels_create_def)
qed

lemma findFirst_created:
  assumes "posts_rels_findFirst (like_of (SafeInt p) (SafeInt u)) s = None"
  shows "posts_rels_findFirst (like_of (SafeInt p) (SafeInt u))
           (posts_rels_create (SafeInt p) (Some (SafeInt u)) None ''likedBy'' s) =
           Some \<lparr>rel_id = posts_rels_seq s, parent_id = SafeInt p, user_id = Some (SafeInt u),
                 tags_id = None, path = ''likedBy''\<rparr>"
  using assms by (simp add: posts_rels_findFirst_def posts_rels_create_def find_snoc like_of_new)

text \<open>Two calls in sequence for the same pair.\<close>

lemma like_twice:
  assumes "pk_ok s" and "posts_rels_count (like_of (SafeInt p) (SafeInt u)) s \<le> 1"
    and "Number_js a = SafeInt p" and "Number_js b = SafeInt u"
    and "posts_findUnique (SafeInt p) s \<noteq> None"
  shows "\<exists>r1 s1 r2 s2.
           likePost a b s = (Inr r1, s1) \<and> likePost a b s1 = (Inr r2, s2) \<and>
           liked r2 = (\<not> liked r1) \<and>
           likeCount r2 = posts_rels_count (likes_on (SafeInt p)) s \<and>
           (\<forall>p' u'. posts_rels_count (like_of p' u') s2 = posts_rels_count (like_of p' u') s) \<and>
           (\<forall>p'. posts_rels_count (likes_on p') s2 = posts_rels_count (likes_on p') s) \<and>
           isPostLikedByUser a b s2 = isPostLikedByUser a b s \<and>
           (liked r1 \<longrightarrow> posts_rels s2 = posts_rels s)"
proof -
  let ?P = "SafeInt p" and ?U = "SafeInt u"
  from assms(5) have found: "posts_findUnique (Number_js a) s \<noteq> None" by (simp add: assms(3))
  from likePost_succeeds [OF found, of b] obtain r1 s1
    where run1: "likePost a b s = (Inr r1, s1)" and posts1: "posts s1 = posts s" by metis
  from run1 have s1: "s1 = snd (likePost a b s)" by simp
  have inv1: "pk_ok s1" using assms(1) by (simp add: s1 pk_ok_likePost)
  from found posts1 have "posts_findUnique (Number_js a) s1 \<noteq> None"
    by (simp add: posts_findUnique_def)
  from likePost_succeeds [OF this, of b] obtain r2 s2
    where run2: "likePost a b s1 = (Inr r2, s2)"
      and cnt2: "likeCount r2 = posts_rels_count (likes_on ?P) s2"
    by (metis assms(3))
  note eff1 = likePost_effect [OF assms(1,3,4) run1]
  note eff2 = likePost_effect [OF inv1 assms(3,4) run2]
  have flip: "liked r2 = (\<not> liked r1)"
  proof -
    have "liked r1 \<longleftrightarrow> 0 < posts_rels_count (like_of ?P ?U) s1"
      using liked_after(1) [OF assms(1-4) run1] by simp
    moreover have "liked r2 \<longleftrightarrow> posts_rels_count (like_of ?P ?U) s1 = 0"
    proof (cases "liked r2")
      case True
      with eff2 show ?thesis by simp
    next
      case False
      with eff2 obtain e where "like_of ?P ?U e"
        "\<forall>wh. posts_rels_count wh s2 + (if wh e then 1 else 0) = posts_rels_count wh s1"
        by auto
      from this(2) [rule_format, of "like_of ?P ?U"] this(1) False show ?thesis by simp
    qed
    ultimately show ?thesis by auto
  qed
  have same: "\<exists>x y. like_of ?P ?U x \<and> like_of ?P ?U y \<and>
      (\<forall>wh. posts_rels_count wh s2 + (if wh x then 1 else 0) =
               posts_rels_count wh s + (if wh y then 1 else 0))"
  proof (cases "liked r1")
    case True
    let ?new = "\<lparr>rel_id = posts_rels_seq s, parent_id = ?P, user_id = Some ?U, tags_id = None,
                  path = ''likedBy''\<rparr>"
    from True eff1 have a: "\<forall>wh. posts_rels_count wh s1 =
        posts_rels_count wh s + (if wh ?new then 1 else 0)" by simp
    from True flip eff2 obtain e where e: "like_of ?P ?U e"
        "\<forall>wh. posts_rels_count wh s2 + (if wh e then 1 else 0) = posts_rels_count wh s1"
      by auto
    have "like_of ?P ?U ?new" by (simp add: like_of_new)
    with a e show ?thesis by metis
  next
    case False
    let ?new = "\<lparr>rel_id = posts_rels_seq s1, parent_id = ?P, user_id = Some ?U, tags_id = None,
                  path = ''likedBy''\<rparr>"
    from False eff1 obtain e where e: "like_of ?P ?U e"
        "\<forall>wh. posts_rels_count wh s1 + (if wh e then 1 else 0) = posts_rels_count wh s"
      by auto
    from False flip eff2 have b: "\<forall>wh. posts_rels_count wh s2 =
        posts_rels_count wh s1 + (if wh ?new then 1 else 0)" by simp
    have n: "like_of ?P ?U ?new" by (simp add: like_of_new)
    have "\<forall>wh. posts_rels_count wh s2 + (if wh e then 1 else 0) =
               posts_rels_count wh s + (if wh ?new then 1 else 0)"
    proof
      fix wh
      from e(2) [rule_format, of wh] b [rule_format, of wh]
      show "posts_rels_count wh s2 + (if wh e then 1 else 0) =
               posts_rels_count wh s + (if wh ?new then 1 else 0)" by simp
    qed
    with e(1) n show ?thesis by blast
  qed
  then obtain x y where xy: "like_of ?P ?U x" "like_of ?P ?U y"
    and bal: "\<forall>wh. posts_rels_count wh s2 + (if wh x then 1 else 0) =
               posts_rels_count wh s + (if wh y then 1 else 0)" by blast
  have pairs: "\<forall>p' u'. posts_rels_count (like_of p' u') s2 = posts_rels_count (like_of p' u') s"
  proof (intro allI)
    fix p' u'
    from bal [rule_format, of "like_of p' u'"] like_of_same [OF xy(1), of p' u']
      like_of_same [OF xy(2), of p' u']
    show "posts_rels_count (like_of p' u') s2 = posts_rels_count (like_of p' u') s"
      by (simp split: if_splits)
  qed
  have targets: "\<forall>p'. posts_rels_count (likes_on p') s2 = posts_rels_count (likes_on p') s"
  proof
    fix p'
    from bal [rule_format, of "likes_on p'"] likes_on_same [OF xy(1), of p']
      likes_on_same [OF xy(2), of p']
    show "posts_rels_count (likes_on p') s2 = posts_rels_count (likes_on p') s"
      by (simp split: if_splits)
  qed
  have query: "isPostLikedByUser a b s2 = isPostLikedByUser a b s"
    using pairs by (simp add: isPostLikedByUser_count [OF assms(3,4)])
  have rows: "posts_rels s2 = posts_rels s" if "liked r1"
  proof -
    from found obtain post where post: "posts_findUnique (Number_js a) s = Some post" by auto
    from that eff1 have "posts_rels_findFirst (like_of ?P ?U) s = None"
      by (simp add: findFirst_count)
    note none = this
    from likePost_absent [OF post, of b] none run1
    have s1_eq: "s1 = posts_rels_create ?P (Some ?U) None ''likedBy'' s"
      by (simp add: assms(3,4))
    from posts1 post have post1: "posts_findUnique (Number_js a) s1 = Some post"
      by (simp add: posts_findUnique_def)
    from findFirst_created [OF none]
    have "posts_rels_findFirst (like_of (Number_js a) (Number_js b)) s1 =
        Some \<lparr>rel_id = posts_rels_seq s, parent_id = ?P, user_id = Some ?U, tags_id = None,
              path = ''likedBy''\<rparr>"
      by (simp add: s1_eq assms(3,4))
    from likePost_present [OF post1 this] run2
    have "posts_rels s2 = filter (\<lambda>r. rel_id r \<noteq> posts_rels_seq s) (posts_rels s1)" by auto
    then show ?thesis by (simp add: s1_eq create_then_delete [OF assms(1)])
  qed
  from cnt2 targets have cnt: "likeCount r2 = posts_rels_count (likes_on ?P) s" by simp
  from run1 run2 flip cnt targets pairs query rows show ?thesis by blast
qed

text \<open>Like, like again, then a like by another user, on a post nobody likes yet.\<close>

lemma like_scenario:
  assumes "pk_ok s" and "posts_findUnique (SafeInt p) s \<noteq> None"
    and "posts_rels_count (likes_on (SafeInt p)) s = 0"
    and "Number_js a = SafeInt p" and "Number_js b = SafeInt u" and "Number_js c = SafeInt v"
    and "u \<noteq> v"
  shows "\<exists>s1 s2 s3.
           likePost a b s =
             (Inr \<lparr>liked = True, likeCount = 1, message = ''Post liked successfully''\<rparr>, s1) \<and>
           likePost a b s1 =
             (Inr \<lparr>liked = False, likeCount = 0, message = ''Post unliked successfully''\<rparr>, s2) \<and>
           likePost a c s2 =
             (Inr \<lparr>liked = True, likeCount = 1, message = ''Post liked successfully''\<rparr>, s3) \<and>
           isPostLikedByUser a b s3 = False \<and>
           isPostLikedByUser a c s3 = True"
proof -
  let ?P = "SafeInt p" and ?U = "SafeInt u" and ?V = "SafeInt v"
  from assms(2) obtain post where post: "posts_findUnique (Number_js a) s = Some post"
    by (auto simp: assms(4))
  have no_like: "posts_rels_count (like_of ?P w) t = 0" if "posts_rels t = posts_rels s" for w t
  proof -
    from assms(3) have "\<forall>r\<in>set (posts_rels s). \<not> likes_on ?P r"
      by (simp add: posts_rels_count_def filter_empty_conv)
    then have "\<forall>r\<in>set (posts_rels t). \<not> like_of ?P w r"
      using that like_of_likes_on by auto
    then show ?thesis by (simp add: posts_rels_count_def filter_empty_conv)
  qed
  let ?s1 = "posts_rels_create ?P (Some ?U) None ''likedBy'' s"
  let ?s2 = "?s1\<lparr>posts_rels := filter (\<lambda>r. rel_id r \<noteq> posts_rels_seq s) (posts_rels ?s1)\<rparr>"
  let ?s3 = "posts_rels_create ?P (Some ?V) None ''likedBy'' ?s2"
  have none1: "posts_rels_findFirst (like_of ?P ?U) s = None"
    using no_like [of s ?U] by (simp add: findFirst_count)
  have run1: "likePost a b s =
      (Inr \<lparr>liked = True, likeCount = 1, message = ''Post liked successfully''\<rparr>, ?s1)"
    using likePost_absent [OF post, of b] none1 assms(3)
    by (simp add: assms(4,5) count_create likes_on_def)
  have post1: "posts_findUnique (Number_js a) ?s1 = Some post"
    using post by (simp add: posts_findUnique_def posts_rels_create_def)
  have rows2: "posts_rels ?s2 = posts_rels s"
    using create_then_delete [OF assms(1)] by simp
  have cnt2: "posts_rels_count wh ?s2 = posts_rels_count wh s" for wh
    using rows2 by (simp add: posts_rels_count_def)
  from findFirst_created [OF none1]
  have first1: "posts_rels_findFirst (like_of (Number_js a) (Number_js b)) ?s1 =
      Some \<lparr>rel_id = posts_rels_seq s, parent_id = ?P, user_id = Some ?U, tags_id = None,
            path = ''likedBy''\<rparr>"
    by (simp add: assms(4,5))
  have run2: "likePost a b ?s1 =
      (Inr \<lparr>liked = False, likeCount = 0, message = ''Post unliked successfully''\<rparr>, ?s2)"
    using likePost_present [OF post1 first1] assms(3) cnt2 [of "likes_on ?P"]
    by (simp add: assms(4) posts_rels_count_def)
  have post2: "posts_findUnique (Number_js a) ?s2 = Some post"
    using post by (simp add: posts_findUnique_def posts_rels_create_def)
  have none2: "posts_rels_findFirst (like_of ?P ?V) ?s2 = None"
    using no_like [OF rows2, of ?V] by (simp only: findFirst_count)
  have run3: "likePost a c ?s2 =
      (Inr \<lparr>liked = True, likeCount = 1, message = ''Post liked successfully''\<rparr>, ?s3)"
    using likePost_absent [OF post2, of c] none2 assms(3) cnt2 [of "likes_on ?P"]
    by (simp add: assms(4,6) count_create [of _ ?P "Some ?V" None "''likedBy''" ?s2]
        likes_on_def)
  have q1: "isPostLikedByUser a b ?s3 = False"
    using no_like [OF rows2, of ?U] assms(7)
    by (simp add: isPostLikedByUser_count [OF assms(4,5)]
        count_create [of _ ?P "Some ?V" None "''likedBy''" ?s2] like_of_new)
  have q2: "isPostLikedByUser a c ?s3 = True"
    using no_like [OF rows2, of ?V]
    by (simp add: isPostLikedByUser_count [OF assms(4,6)]
        count_create [of _ ?P "Some ?V" None "''likedBy''" ?s2] like_of_new)
  from run1 run2 run3 q1 q2 show ?thesis by blast
qed

text \<open>
  Claim C3, as amended. In a store whose row ids are a primary key and that holds at most
  one like row of the pair, two \<open>likePost\<close> calls in sequence for an existing post and the
  same user both succeed, the second reports the opposite of the first (so \<open>liked = false\<close>
  after \<open>liked = true\<close>), its \<open>likeCount\<close> is the count before the first call, every pair
  has as many like rows as before, and \<open>isPostLikedByUser\<close> answers as before; when the
  first call created the row, the table is row for row what it was. The scenario: on a
  post 7 that nobody likes yet, user 1 likes (true, 1), user 1 likes again (false, 0),
  user 2 likes (true, 1), and then user 1 is not a liker and user 2 is. As the claim
  states it, from any state, it fails on a store with two like rows of the pair: both
  calls report \<open>liked = false\<close>, the second count is two below the first, and the pair
  that was liked no longer is.
\<close>

theorem like_twice_restores:
  assumes "pk_ok s" and "posts_rels_count (like_of (SafeInt p) (SafeInt u)) s \<le> 1"
    and "Number_js a = SafeInt p" and "Number_js b = SafeInt u"
    and "posts_findUnique (SafeInt p) s \<noteq> None"
  shows "(\<exists>r1 s1 r2 s2.
            likePost a b s = (Inr r1, s1) \<and> likePost a b s1 = (Inr r2, s2) \<and>
            liked r2 = (\<not> liked r1) \<and>
            likeCount r2 = posts_rels_count (likes_on (SafeInt p)) s \<and>
            (\<forall>p' u'. posts_rels_count (like_of p' u') s2 = posts_rels_count (like_of p' u') s) \<and>
            (\<forall>p'. posts_rels_count (likes_on p') s2 = posts_rels_count (likes_on p') s) \<and>
            isPostLikedByUser a b s2 = isPostLikedByUser a b s \<and>
            (liked r1 \<longrightarrow> posts_rels s2 = posts_rels s)) \<and>
         (p = 7 \<and> posts_rels_count (likes_on (SafeInt 7)) s = 0 \<longrightarrow>
            (\<exists>s1 s2 s3.
               likePost (JNum 7) (JNum 1) s =
                 (Inr \<lparr>liked = True, likeCount = 1, message = ''Post liked successfully''\<rparr>,
                  s1) \<and>
               likePost (JNum 7) (JNum 1) s1 =
                 (Inr \<lparr>liked = False, likeCount = 0, message = ''Post unliked successfully''\<rparr>,
                  s2) \<and>
               likePost (JNum 7) (JNum 2) s2 =
                 (Inr \<lparr>liked = True, likeCount = 1, message = ''Post liked successfully''\<rparr>,
                  s3) \<and>
               isPostLikedByUser (JNum 7) (JNum 1) s3 = False \<and>
               isPostLikedByUser (JNum 7) (JNum 2) s3 = True))"
proof (rule conjI)
  show "\<exists>r1 s1 r2 s2.
            likePost a b s = (Inr r1, s1) \<and> likePost a b s1 = (Inr r2, s2) \<and>
            liked r2 = (\<not> liked r1) \<and>
            likeCount r2 = posts_rels_count (likes_on (SafeInt p)) s \<and>
            (\<forall>p' u'. posts_rels_count (like_of p' u') s2 = posts_rels_count (like_of p' u') s) \<and>
            (\<forall>p'. posts_rels_count (likes_on p') s2 = posts_rels_count (likes_on p') s) \<and>
            isPostLikedByUser a b s2 = isPostLikedByUser a b s \<and>
            (liked r1 \<longrightarrow> posts_rels s2 = posts_rels s)"
    using assms by (rule like_twice)
next
  have n: "Number_js (JNum 7) = SafeInt 7" "Number_js (JNum 1) = SafeInt 1"
    "Number_js (JNum 2) = SafeInt 2" by (rule Number_js_JNum; simp)+
  have ne: "(1 :: int) \<noteq> 2" by simp
  show "p = 7 \<and> posts_rels_count (likes_on (SafeInt 7)) s = 0 \<longrightarrow>
            (\<exists>s1 s2 s3.
               likePost (JNum 7) (JNum 1) s =
                 (Inr \<lparr>liked = True, likeCount = 1, message = ''Post liked successfully''\<rparr>,
                  s1) \<and>
               likePost (JNum 7) (JNum 1) s1 =
                 (Inr \<lparr>liked = False, likeCount = 0, message = ''Post unliked successfully''\<rparr>,
                  s2) \<and>
               likePost (JNum 7) (JNum 2) s2 =
                 (Inr \<lparr>liked = True, likeCount = 1, message = ''Post liked successfully''\<rparr>,
                  s3) \<and>
               isPostLikedByUser (JNum 7) (JNum 1) s3 = False \<and>
               isPostLikedByUser (JNum 7) (JNum 2) s3 = True)"
  proof
    assume h: "p = 7 \<and> posts_rels_count (likes_on (SafeInt 7)) s = 0"
    with assms(5) have "posts_findUnique (SafeInt 7) s \<noteq> None" by simp
    from like_scenario [OF assms(1) this h [THEN conjunct2] n ne]
    show "\<exists>s1 s2 s3.
               likePost (JNum 7) (JNum 1) s =
                 (Inr \<lparr>liked = True, likeCount = 1, message = ''Post liked successfully''\<rparr>,
                  s1) \<and>
               likePost (JNum 7) (JNum 1) s1 =
                 (Inr \<lparr>liked = False, likeCount = 0, message = ''Post unliked successfully''\<rparr>,
                  s2) \<and>
               likePost (JNum 7) (JNum 2) s2 =
                 (Inr \<lparr>liked = True, likeCount = 1, message = ''Post liked successfully''\<rparr>,
                  s3) \<and>
               isPostLikedByUser (JNum 7) (JNum 1) s3 = False \<and>
               isPostLikedByUser (JNum 7) (JNum 2) s3 = True" .
  qed
qed

theorem like_twice_restores_witness:
  "pk_ok \<lparr>posts = [\<lparr>post_id = 7, title = ''t''\<rparr>], posts_rels = [], users = [],
          posts_rels_seq = 1\<rparr> \<and>
   posts_rels_count (like_of (SafeInt 7) (SafeInt 1))
     \<lparr>posts = [\<lparr>post_id = 7, title = ''t''\<rparr>], posts_rels = [], users = [],
      posts_rels_seq = 1\<rparr> \<le> 1 \<and>
   Number_js (JNum 7) = SafeInt 7 \<and> Number_js (JNum 1) = SafeInt 1 \<and>
   posts_findUnique (SafeInt 7)
     \<lparr>posts = [\<lparr>post_id = 7, title = ''t''\<rparr>], posts_rels = [], users = [],
      posts_rels_seq = 1\<rparr> \<noteq> None \<and>
   posts_rels_count (likes_on (SafeInt 7))
     \<lparr>posts = [\<lparr>post_id = 7, title = ''t''\<rparr>], posts_rels = [], users = [],
      posts_rels_seq = 1\<rparr> = 0 \<and>
   (\<exists>s1 s2 s3.
      likePost (JNum 7) (JNum 1)
        \<lparr>posts = [\<lparr>post_id = 7, title = ''t''\<rparr>], posts_rels = [], users = [],
         posts_rels_seq = 1\<rparr> =
        (Inr \<lparr>liked = True, likeCount = 1, message = ''Post liked successfully''\<rparr>, s1) \<and>
      likePost (JNum 7) (JNum 1) s1 =
        (Inr \<lparr>liked = False, likeCount = 0, message = ''Post unliked successfully''\<rparr>, s2) \<and>
      likePost (JNum 7) (JNum 2) s2 =
        (Inr \<lparr>liked = True, likeCount = 1, message = ''Post liked successfully''\<rparr>, s3) \<and>
      isPostLikedByUser (JNum 7) (JNum 1) s3 = False \<and>
      isPostLikedByUser (JNum 7) (JNum 2) s3 = True)"
proof -
  let ?s = "\<lparr>posts = [\<lparr>post_id = 7, title = ''t''\<rparr>], posts_rels = [], users = [],
             posts_rels_seq = 1\<rparr>"
  have h1: "pk_ok ?s" by (simp add: pk_ok_def)
  have h2: "posts_rels_count (like_of (SafeInt 7) (SafeInt 1)) ?s \<le> 1"
    by (simp add: posts_rels_count_def)
  have h3: "Number_js (JNum 7) = SafeInt 7" and h4: "Number_js (JNum 1) = SafeInt 1"
    by (rule Number_js_JNum; simp)+
  have h5: "posts_findUnique (SafeInt 7) ?s \<noteq> None" by (simp add: posts_findUnique_def)
  have h6: "posts_rels_count (likes_on (SafeInt 7)) ?s = 0" by (simp add: posts_rels_count_def)
  from like_twice_restores [OF h1 h2 h3 h4 h5, THEN conjunct2] h6
  have "\<exists>s1 s2 s3.
      likePost (JNum 7) (JNum 1) ?s =
        (Inr \<lparr>liked = True, likeCount = 1, message = ''Post liked successfully''\<rparr>, s1) \<and>
      likePost (JNum 7) (JNum 1) s1 =
        (Inr \<lparr>liked = False, likeCount = 0, message = ''Post unliked successfully''\<rparr>, s2) \<and>
      likePost (JNum 7) (JNum 2) s2 =
        (Inr \<lparr>liked = True, likeCount = 1, message = ''Post liked successfully''\<rparr>, s3) \<and>
      isPostLikedByUser (JNum 7) (JNum 1) s3 = False \<and>
      isPostLikedByUser (JNum 7) (JNum 2) s3 = True"
    by (simp del: Number_js.simps)
  with h1 h2 h3 h4 h5 h6 show ?thesis by (simp del: Number_js.simps)
qed

text \<open>
  On the store with two like rows of the pair (7, 1), which two calls in flight together
  reach, two \<open>likePost\<close> calls of user 1 on post 7 in sequence each delete a row: both
  report \<open>liked = false\<close>, the second with count 0 where the count was 2 before the first,
  and the pair, liked before, is not liked after.
\<close>

theorem like_twice_on_two_rows:
  "reachable
     \<lparr>posts = [\<lparr>post_id = 7, title = ''t''\<rparr>],
      posts_rels =
        [\<lparr>rel_id = 1, parent_id = SafeInt 7, user_id = Some (SafeInt 1), tags_id = None,
           path = ''likedBy''\<rparr>,
         \<lparr>rel_id = 2, parent_id = SafeInt 7, user_id = Some (SafeInt 1), tags_id = None,
           path = ''likedBy''\<rparr>],
      users = [], posts_rels_seq = 3\<rparr>
     [Settled (Inr \<lparr>liked = True, likeCount = 2, message = ''Post liked successfully''\<rparr>),
      Settled (Inr \<lparr>liked = True, likeCount = 2, message = ''Post liked successfully''\<rparr>)] \<and>
   posts_rels_count (likes_on (SafeInt 7))
     \<lparr>posts = [\<lparr>post_id = 7, title = ''t''\<rparr>],
      posts_rels =
        [\<lparr>rel_id = 1, parent_id = SafeInt 7, user_id = Some (SafeInt 1), tags_id = None,
           path = ''likedBy''\<rparr>,
         \<lparr>rel_id = 2, parent_id = SafeInt 7, user_id = Some (SafeInt 1), tags_id = None,
           path = ''likedBy''\<rparr>],
      users = [], posts_rels_seq = 3\<rparr> = 2 \<and>
   isPostLikedByUser (JNum 7) (JNum 1)
     \<lparr>posts = [\<lparr>post_id = 7, title = ''t''\<rparr>],
      posts_rels =
        [\<lparr>rel_id = 1, parent_id = SafeInt 7, user_id = Some (SafeInt 1), tags_id = None,
           path = ''likedBy''\<rparr>,
         \<lparr>rel_id = 2, parent_id = SafeInt 7, user_id = Some (SafeInt 1), tags_id = None,
           path = ''likedBy''\<rparr>],
      users = [], posts_rels_seq = 3\<rparr> = True \<and>
   likePost (JNum 7) (JNum 1)
     \<lparr>posts = [\<lparr>post_id = 7, title = ''t''\<rparr>],
      posts_rels =
        [\<lparr>rel_id = 1, parent_id = SafeInt 7, user_id = Some (SafeInt 1), tags_id = None,
           path = ''likedBy''\<rparr>,
         \<lparr>rel_id = 2, parent_id = SafeInt 7, user_id = Some (SafeInt 1), tags_id = None,
           path = ''likedBy''\<rparr>],
      users = [], posts_rels_seq = 3\<rparr> =
     (Inr \<lparr>liked = False, likeCount = 1, message = ''Post unliked successfully''\<rparr>,
      \<lparr>posts = [\<lparr>post_id = 7, title = ''t''\<rparr>],
       posts_rels =
         [\<lparr>rel_id = 2, parent_id = SafeInt 7, user_id = Some (SafeInt 1), tags_id = None,
            path = ''likedBy''\<rparr>],
       users = [], posts_rels_seq = 3\<rparr>) \<and>
   likePost (JNum 7) (JNum 1)
     \<lparr>posts = [\<lparr>post_id = 7, title = ''t''\<rparr>],
      posts_rels =
        [\<lparr>rel_id = 2, parent_id = SafeInt 7, user_id = Some (SafeInt 1), tags_id = None,
           path = ''likedBy''\<rparr>],
      users = [], posts_rels_seq = 3\<rparr> =
     (Inr \<lparr>liked = False, likeCount = 0, message = ''Post unliked successfully''\<rparr>,
      \<lparr>posts = [\<lparr>post_id = 7, title = ''t''\<rparr>], posts_rels = [], users = [],
       posts_rels_seq = 3\<rparr>) \<and>
   isPostLikedByUser (JNum 7) (JNum 1)
     \<lparr>posts = [\<lparr>post_id = 7, title = ''t''\<rparr>], posts_rels = [], users = [],
      posts_rels_seq = 3\<rparr> = False"
proof -
  have num: "Number_js (JNum 7) = SafeInt 7" "Number_js (JNum 1) = SafeInt 1"
    by (rule Number_js_JNum; simp)+
  show ?thesis
    using two_like_rows_reachable
    by (simp add: num store_eval isPostLikedByUser_def Let_def eval_nat_numeral
        del: Number_js.simps)
qed

section \<open>Missing identifiers at the boundary\<close>

text \<open>
  Claim C7. A reaction request whose user id is missing should be answered with status
  400 before the ledger is invoked. The handlers of \<open>/comment/like-comment/:id\<close> and
  \<open>/comment/dislike-comment/:id\<close> have no such check: with \<open>userId\<close> absent from the body
  they call the operation with \<open>undefined\<close> and, when it succeeds, answer 200 with the store
  as the operation left it.
\<close>

theorem comment_like_routes_skip_presence_check:
  "like_comment_route (\<lambda>c u s. (Inr r, f c u s))
     \<lparr>params_commentId = cid, req_userId = JUndefined\<rparr> s =
     (Sent 200 (Result r), f cid JUndefined s) \<and>
   dislike_comment_route (\<lambda>c u s. (Inr r, f c u s))
     \<lparr>params_commentId = cid, req_userId = JUndefined\<rparr> s =
     (Sent 200 (Result r), f cid JUndefined s)"
  by (simp add: like_comment_route_def dislike_comment_route_def)

theorem comment_like_routes_skip_presence_check_witness:
  "like_comment_route (\<lambda>c u s. (Inr True, (c, u) # s))
     \<lparr>params_commentId = JStr ''5'', req_userId = JUndefined\<rparr> [] =
     (Sent 200 (Result True), [(JStr ''5'', JUndefined)]) \<and>
   dislike_comment_route (\<lambda>c u s. (Inr True, (c, u) # s))
     \<lparr>params_commentId = JStr ''5'', req_userId = JUndefined\<rparr> [] =
     (Sent 200 (Result True), [(JStr ''5'', JUndefined)])"
  using comment_like_routes_skip_presence_check
    [of True "\<lambda>c u s. (c, u) # s" "JStr ''5''" "[]"]
  by simp

text \<open>
  The other four reaction routes do check: \<open>/post/like\<close> answers 400 when \<open>postId\<close> or
  \<open>userId\<close> is falsy, \<open>/post/:postId/is-liked\<close>, \<open>/comment/unlike-comment/:id\<close> and
  \<open>/comment/:commentId/is-liked\<close> answer 400 when \<open>userId\<close> is falsy; the operation is not
  called and the store is the one the request found.
\<close>

theorem checked_routes_reject_missing_ids:
  "(\<not> truthy (body_postId req) \<or> \<not> truthy (body_userId req) \<longrightarrow>
      post_like_route req s =
        (Sent 400 (ErrorBody ''Missing required fields: postId or userId''), s)) \<and>
   (\<not> truthy (query_userId q) \<longrightarrow>
      post_is_liked_route q s =
        Sent 400 (ErrorBody ''Missing required query parameter: userId'')) \<and>
   (\<not> truthy (req_userId creq) \<longrightarrow>
      unlike_comment_route svc creq t =
        (Sent 400 (ErrorBody ''Missing required field: userId''), t) \<and>
      comment_is_liked_route qry creq t =
        Sent 400 (ErrorBody ''Missing required query parameter: userId''))"
  by (simp add: post_like_route_def post_is_liked_route_def unlike_comment_route_def
      comment_is_liked_route_def)

theorem checked_routes_reject_missing_ids_witness:
  "post_like_route \<lparr>body_postId = JNum 7, body_userId = JUndefined\<rparr>
     \<lparr>posts = [\<lparr>post_id = 7, title = ''t''\<rparr>], posts_rels = [], users = [],
      posts_rels_seq = 1\<rparr> =
     (Sent 400 (ErrorBody ''Missing required fields: postId or userId''),
      \<lparr>posts = [\<lparr>post_id = 7, title = ''t''\<rparr>], posts_rels = [], users = [],
       posts_rels_seq = 1\<rparr>) \<and>
   post_is_liked_route \<lparr>params_postId = JStr ''7'', query_userId = JUndefined\<rparr>
     \<lparr>posts = [\<lparr>post_id = 7, title = ''t''\<rparr>], posts_rels = [], users = [],
      posts_rels_seq = 1\<rparr> =
     Sent 400 (ErrorBody ''Missing required query parameter: userId'') \<and>
   unlike_comment_route (\<lambda>c u s. (Inr True, (c, u) # s))
     \<lparr>params_commentId = JStr ''5'', req_userId = JUndefined\<rparr> [] =
     (Sent 400 (ErrorBody ''Missing required field: userId''), [])"
  using checked_routes_reject_missing_ids
    [where req = "\<lparr>body_postId = JNum 7, body_userId = JUndefined\<rparr>"
       and s = "\<lparr>posts = [\<lparr>post_id = 7, title = ''t''\<rparr>], posts_rels = [], users = [],
                 posts_rels_seq = 1\<rparr>"
       and q = "\<lparr>params_postId = JStr ''7'', query_userId = JUndefined\<rparr>"
       and creq = "\<lparr>params_commentId = JStr ''5'', req_userId = JUndefined\<rparr>"
       and svc = "\<lambda>c u s. (Inr True, (c, u) # s)" and t = "[]"]
  by simp

end
